theory Spec2Isabelle
  imports Complex_Main "HOL-Library.Multiset" "HOL-Library.List_Lexorder" "HOL-Library.Sublist"
begin

section \<open>Data model\<close>

text \<open>
  A Python \<open>dict\<close> keeps its keys in insertion order and holds each key once. It is
  modelled as an association list whose keys are pairwise different (\<open>wf_dict\<close>);
  \<open>d[k]\<close> raises \<open>KeyError\<close> on a missing key. JSON numbers are modelled as real
  numbers, compared exactly.
\<close>

type_synonym 'v dict = "(string \<times> 'v) list"

definition wf_dict :: "'v dict \<Rightarrow> bool" where
  "wf_dict d = distinct (map fst d)"

datatype py_error =
  KeyError string | IndexError | ValueError | ZeroDivisionError | OverflowError

definition getitem :: "'v dict \<Rightarrow> string \<Rightarrow> py_error + 'v" where
  "getitem d k = (case map_of d k of None \<Rightarrow> Inl (KeyError k) | Some v \<Rightarrow> Inr v)"

text \<open>
  The \<open>batch_filtering\<close> object of the configuration. A field is \<open>None\<close> when the key
  is absent; \<open>other_keys\<close> lists any further keys of the object, which only matter for
  its truth value (an empty \<open>dict\<close> is false).
\<close>

record filtering_config =
  exclude_condition :: "string dict option"
  sample_rate :: "real option"
  target_count :: "int option"
  other_keys :: "string list"

definition empty_filtering :: filtering_config where
  "empty_filtering =
     \<lparr>exclude_condition = None, sample_rate = None, target_count = None, other_keys = []\<rparr>"

definition truthy :: "filtering_config \<Rightarrow> bool" where
  "truthy fc \<longleftrightarrow>
     exclude_condition fc \<noteq> None \<or> sample_rate fc \<noteq> None \<or> target_count fc \<noteq> None
     \<or> other_keys fc \<noteq> []"

text \<open>
  The \<open>file_naming\<close> object. The format string is given parsed, as Python's
  \<open>str.format\<close> reads it: literal text, replacement fields that are a name and
  nothing else (\<open>{name}\<close>), and any other replacement field (one with a conversion
  \<open>!r\<close>, a format specification \<open>:.1\<close>, an index or an attribute), given by what it
  makes of the keyword arguments.
\<close>

datatype piece = Lit string | Field string | Other "string dict \<Rightarrow> py_error + string"

record naming_config =
  format :: "piece list option"
  extension :: "string option"

text \<open>
  The configuration, with the keys the modelled functions read. \<open>error_tolerance\<close> is
  \<open>execution_settings.error_tolerance\<close>.
\<close>

record config =
  parameters :: "real list dict"
  batch_filtering :: "filtering_config option"
  error_tolerance :: "string option"
  file_naming :: "naming_config option"

section \<open>The random source\<close>

text \<open>
  The module-level random source is an explicit state: the stream of the uniform variates
  it will hand out. \<open>random.random()\<close> takes the next one, a number in \<open>[0, 1)\<close>.
  \<open>random.shuffle\<close> is the library's Fisher-Yates loop
  \<^verbatim>\<open>for i in reversed(range(1, len(x))): j = randbelow(i + 1); x[i], x[j] = x[j], x[i]\<close>
  where \<open>randbelow n\<close> is read off the next variate.
\<close>

type_synonym rng = "nat \<Rightarrow> real"

definition valid_rng :: "rng \<Rightarrow> bool" where
  "valid_rng g = (\<forall>i. 0 \<le> g i \<and> g i < 1)"

definition random :: "rng \<Rightarrow> real \<times> rng" where
  "random g = (g 0, \<lambda>i. g (Suc i))"

definition randbelow :: "nat \<Rightarrow> rng \<Rightarrow> nat \<times> rng" where
  "randbelow n g = (case random g of (u, g') \<Rightarrow> (nat \<lfloor>u * real n\<rfloor>, g'))"

fun shuffle_loop :: "nat \<Rightarrow> 'a list \<Rightarrow> rng \<Rightarrow> 'a list \<times> rng" where
  "shuffle_loop 0 x g = (x, g)"
| "shuffle_loop (Suc i) x g =
     (case randbelow (Suc (Suc i)) g of
        (j, g') \<Rightarrow> shuffle_loop i (x[Suc i := x ! j, j := x ! Suc i]) g')"

definition shuffle :: "'a list \<Rightarrow> rng \<Rightarrow> 'a list \<times> rng" where
  "shuffle x g = shuffle_loop (length x - 1) x g"

section \<open>Combination Generator\<close>

text \<open>\<open>itertools.product\<close>: the rightmost list advances fastest.\<close>

fun itertools_product :: "'a list list \<Rightarrow> 'a list list" where
  "itertools_product [] = [[]]"
| "itertools_product (xs # xss) =
     concat (map (\<lambda>x. map (\<lambda>t. x # t) (itertools_product xss)) xs)"

definition all_combinations :: "real list dict \<Rightarrow> real dict list" where
  "all_combinations params =
     (let param_names = map fst params;
          param_values = map snd params
      in map (\<lambda>values. zip param_names values) (itertools_product param_values))"

section \<open>Filter/Sampler\<close>

text \<open>
  The test of \<open>_apply_filtering\<close>:
  \<^verbatim>\<open>combo["K_ch"] > 2.4 and combo["W_ch"] > 2.4 and combo["W_rib"] > 9\<close>.
  Python's \<open>and\<close> evaluates its right operand only when the left one is true, so a
  key is looked up only when every comparison before it succeeded.
\<close>

definition exclusion_test :: "real dict \<Rightarrow> py_error + bool" where
  "exclusion_test combo =
     (case getitem combo ''K_ch'' of
        Inl e \<Rightarrow> Inl e
      | Inr k \<Rightarrow>
          if \<not> k > 2.4 then Inr False
          else (case getitem combo ''W_ch'' of
                  Inl e \<Rightarrow> Inl e
                | Inr w \<Rightarrow>
                    if \<not> w > 2.4 then Inr False
                    else (case getitem combo ''W_rib'' of
                            Inl e \<Rightarrow> Inl e
                          | Inr r \<Rightarrow> Inr (r > 9))))"

text \<open>
  The loop of \<open>_apply_filtering\<close>, with its accumulators \<open>filtered\<close> and
  \<open>excluded_count\<close>. A variate is drawn only for a combination that passes the test.
\<close>

fun filter_loop ::
  "real \<Rightarrow> real dict list \<Rightarrow> real dict list \<Rightarrow> nat \<Rightarrow> rng
     \<Rightarrow> py_error + (real dict list \<times> nat \<times> rng)" where
  "filter_loop rate [] filtered excluded_count g = Inr (filtered, excluded_count, g)"
| "filter_loop rate (combo # rest) filtered excluded_count g =
     (case exclusion_test combo of
        Inl e \<Rightarrow> Inl e
      | Inr True \<Rightarrow>
          (case random g of
             (u, g') \<Rightarrow>
               if u < rate then filter_loop rate rest filtered (excluded_count + 1) g'
               else filter_loop rate rest (filtered @ [combo]) excluded_count g')
      | Inr False \<Rightarrow> filter_loop rate rest (filtered @ [combo]) excluded_count g)"

definition apply_filtering ::
  "real dict list \<Rightarrow> filtering_config \<Rightarrow> rng \<Rightarrow> py_error + (real dict list \<times> rng)" where
  "apply_filtering combinations fc g =
     (let exclude = (case exclude_condition fc of None \<Rightarrow> [] | Some c \<Rightarrow> c);
          rate = (case sample_rate fc of None \<Rightarrow> 0.5 | Some r \<Rightarrow> r)
      in case filter_loop rate combinations [] 0 g of
           Inl e \<Rightarrow> Inl e
         | Inr (filtered, excluded_count, g') \<Rightarrow> Inr (filtered, g'))"

text \<open>The slice \<open>xs[:t]\<close>: a negative bound counts from the end.\<close>

definition slice_to :: "'a list \<Rightarrow> int \<Rightarrow> 'a list" where
  "slice_to xs t = (if t < 0 then take (nat (int (length xs) + t)) xs else take (nat t) xs)"

text \<open>
  The last step of \<open>generate_parameter_combinations\<close>: shuffle and cut when the list
  is longer than the target.
\<close>

definition sample_to_target :: "'a list \<Rightarrow> int \<Rightarrow> rng \<Rightarrow> 'a list \<times> rng" where
  "sample_to_target filtered target g =
     (if int (length filtered) > target
      then (case shuffle filtered g of (s, g') \<Rightarrow> (slice_to s target, g'))
      else (filtered, g))"

definition generate_parameter_combinations ::
  "config \<Rightarrow> rng \<Rightarrow> py_error + (real dict list \<times> rng)" where
  "generate_parameter_combinations cfg g =
     (let combos = all_combinations (parameters cfg);
          fc = (case batch_filtering cfg of None \<Rightarrow> empty_filtering | Some f \<Rightarrow> f);
          target = (case target_count fc of None \<Rightarrow> 868 | Some t \<Rightarrow> t)
      in case (if truthy fc then apply_filtering combos fc g else Inr (combos, g)) of
           Inl e \<Rightarrow> Inl e
         | Inr (filtered, g') \<Rightarrow> Inr (sample_to_target filtered target g'))"

section \<open>Index tuples of the Cartesian product\<close>

text \<open>
  The index tuples \<open>(i\<^sub>1, \<dots>, i\<^sub>n)\<close> with \<open>i\<^sub>m < k\<^sub>m\<close>, enumerated with the rightmost
  index advancing fastest, and the combination an index tuple selects from a
  parameter space.
\<close>

definition index_tuples :: "nat list \<Rightarrow> nat list list" where
  "index_tuples ks = itertools_product (map (\<lambda>k. [0..<k]) ks)"

definition select :: "'v list dict \<Rightarrow> nat list \<Rightarrow> 'v dict" where
  "select params idx = map2 (\<lambda>(name, vs) i. (name, vs ! i)) params idx"

text \<open>The parameter space of the end-to-end scenario.\<close>

definition scenario_space :: "real list dict" where
  "scenario_space = [(''K_ch'', [1, 3]), (''W_ch'', [1, 3]), (''W_rib'', [5, 10])]"

section \<open>Vocabulary of the statements\<close>

text \<open>
  A combination matches the exclusion predicate when the test evaluates to true; the test
  fails when a key it looks up is missing.
\<close>

definition matches :: "real dict \<Rightarrow> bool" where
  "matches combo \<longleftrightarrow> exclusion_test combo = Inr True"

definition test_fails :: "real dict \<Rightarrow> bool" where
  "test_fails combo = isl (exclusion_test combo)"

text \<open>The random source after \<open>k\<close> variates have been drawn.\<close>

definition skip :: "nat \<Rightarrow> rng \<Rightarrow> rng" where
  "skip k g = (\<lambda>i. g (i + k))"

text \<open>A random source whose every variate is \<open>0\<close>.\<close>

definition zero_rng :: rng where
  "zero_rng = (\<lambda>i. 0)"

text \<open>
  The end-to-end scenario: predicate-matching combinations are dropped with probability 1,
  the target population is 100. \<open>scenario_retained\<close> is the parameter space's
  product without \<open>(3, 3, 10)\<close>.
\<close>

definition scenario_config :: config where
  "scenario_config =
     \<lparr>parameters = scenario_space,
      batch_filtering = Some \<lparr>exclude_condition = None, sample_rate = Some 1,
                               target_count = Some 100, other_keys = []\<rparr>,
      error_tolerance = None, file_naming = None\<rparr>"

definition scenario_retained :: "real dict list" where
  "scenario_retained =
     [[(''K_ch'', 1), (''W_ch'', 1), (''W_rib'', 5)], [(''K_ch'', 1), (''W_ch'', 1), (''W_rib'', 10)],
      [(''K_ch'', 1), (''W_ch'', 3), (''W_rib'', 5)], [(''K_ch'', 1), (''W_ch'', 3), (''W_rib'', 10)],
      [(''K_ch'', 3), (''W_ch'', 1), (''W_rib'', 5)], [(''K_ch'', 3), (''W_ch'', 1), (''W_rib'', 10)],
      [(''K_ch'', 3), (''W_ch'', 3), (''W_rib'', 5)]]"

text \<open>Further configurations the statements are evaluated at.\<close>

definition negative_target_config :: config where
  "negative_target_config =
     \<lparr>parameters = scenario_space,
      batch_filtering = Some \<lparr>exclude_condition = None, sample_rate = Some 1,
                               target_count = Some (- 1), other_keys = []\<rparr>,
      error_tolerance = None, file_naming = None\<rparr>"

definition unfiltered_config :: config where
  "unfiltered_config =
     \<lparr>parameters = scenario_space, batch_filtering = None, error_tolerance = None, file_naming = None\<rparr>"


section \<open>Batch Orchestrator\<close>

text \<open>
  The exception classes the handlers tell apart: \<open>Exception\<close> stands for any exception
  that \<^verbatim>\<open>except Exception\<close> catches, \<open>KeyboardInterrupt\<close> for the interrupt, which it
  does not catch. The outcome of a step is the exception it raises, or \<open>None\<close> when it
  returns.
\<close>

datatype exc = Exception | KeyboardInterrupt

type_synonym outcome = "exc option"

text \<open>
  What happens while one combination is processed: the outcome of every step of
  \<open>process_single_combination\<close> that can raise, in the order of the code. The steps
  computed inside the program (\<open>calculate_mesh_parameters\<close>, \<open>generate_filename\<close>)
  appear with the outcome they have for this combination.
\<close>

record episode =
  template_exists :: bool
  load :: outcome
  setup_parameters :: outcome
  mesh_parameters :: outcome
  mesh_run :: outcome
  mesh_statistics :: outcome
  filename :: outcome
  save :: outcome
  remove :: outcome

text \<open>
  The observable trace: a model loaded from the template, a model saved, a call of
  \<open>client.remove\<close>, the connection opened and closed, the final totals written to the
  log (\<open>Complete total successful errors\<close>) and the summary report written by the demo
  (\<open>Summary total successful errors\<close>).
\<close>

datatype event =
    Connect
  | Load nat
  | Save nat
  | Remove nat
  | Complete nat nat nat
  | Summary nat nat nat
  | Disconnect

text \<open>
  \<open>generate_mesh_for_model\<close>: a failed mesh run is tolerated when
  \<open>error_tolerance\<close> is \<open>continue\<close>, and raised again otherwise.
\<close>

definition generate_mesh_for_model :: "config \<Rightarrow> episode \<Rightarrow> exc + bool" where
  "generate_mesh_for_model cfg ep =
     (case mesh_run ep of
        None \<Rightarrow> Inr True
      | Some Exception \<Rightarrow>
          if error_tolerance cfg = Some ''continue'' then Inr False else Inl Exception
      | Some KeyboardInterrupt \<Rightarrow> Inl KeyboardInterrupt)"

text \<open>\<open>verify_mesh_quality\<close> swallows an exception of the statistics call.\<close>

definition verify_mesh_quality :: "episode \<Rightarrow> exc + unit" where
  "verify_mesh_quality ep =
     (case mesh_statistics ep of
        Some KeyboardInterrupt \<Rightarrow> Inl KeyboardInterrupt
      | _ \<Rightarrow> Inr ())"

text \<open>The \<open>try\<close> block of \<open>process_single_combination\<close> from the loaded model on.\<close>

definition loaded_steps :: "config \<Rightarrow> episode \<Rightarrow> nat \<Rightarrow> (exc + bool) \<times> event list" where
  "loaded_steps cfg ep idx =
     (case setup_parameters ep of
        Some x \<Rightarrow> (Inl x, [])
      | None \<Rightarrow>
     (case mesh_parameters ep of
        Some x \<Rightarrow> (Inl x, [])
      | None \<Rightarrow>
     (case generate_mesh_for_model cfg ep of
        Inl x \<Rightarrow> (Inl x, [])
      | Inr mesh_success \<Rightarrow>
     (case (if mesh_success then verify_mesh_quality ep else Inr ()) of
        Inl x \<Rightarrow> (Inl x, [])
      | Inr u \<Rightarrow>
     (case filename ep of
        Some x \<Rightarrow> (Inl x, [])
      | None \<Rightarrow>
     (case save ep of
        Some x \<Rightarrow> (Inl x, [])
      | None \<Rightarrow> (Inr True, [Save idx])))))))"

text \<open>\<^verbatim>\<open>except Exception as e: ... return False\<close>\<close>

definition except_Exception :: "exc + bool \<Rightarrow> exc + bool" where
  "except_Exception r = (case r of Inl Exception \<Rightarrow> Inr False | _ \<Rightarrow> r)"

text \<open>
  \<open>process_single_combination\<close>. The \<open>finally\<close> block calls \<open>client.remove\<close> when a
  model was loaded; an exception of that call is swallowed, an interrupt during it
  propagates.
\<close>

definition process_single_combination ::
  "config \<Rightarrow> episode \<Rightarrow> nat \<Rightarrow> (exc + bool) \<times> event list" where
  "process_single_combination cfg ep idx =
     (if \<not> template_exists ep then (Inr False, [])
      else case load ep of
        Some x \<Rightarrow> (except_Exception (Inl x), [])
      | None \<Rightarrow>
          (case loaded_steps cfg ep idx of
             (r, evs) \<Rightarrow>
               (case remove ep of
                  Some KeyboardInterrupt \<Rightarrow>
                    (Inl KeyboardInterrupt, Load idx # evs @ [Remove idx])
                | _ \<Rightarrow> (except_Exception r, Load idx # evs @ [Remove idx]))))"

text \<open>
  The loop of \<open>run_batch_generation\<close> over \<open>enumerate(combinations, 1)\<close>, with its
  counters \<open>success_count\<close> and \<open>error_count\<close>. An exception that leaves
  \<open>process_single_combination\<close> leaves the loop.
\<close>

fun process_loop ::
  "config \<Rightarrow> (nat \<Rightarrow> episode) \<Rightarrow> nat \<Rightarrow> real dict list \<Rightarrow> nat \<Rightarrow> nat
     \<Rightarrow> (exc + nat \<times> nat) \<times> event list" where
  "process_loop cfg eps idx [] success_count error_count =
     (Inr (success_count, error_count), [])"
| "process_loop cfg eps idx (param_values # rest) success_count error_count =
     (case process_single_combination cfg (eps idx) idx of
        (Inl x, evs) \<Rightarrow> (Inl x, evs)
      | (Inr success, evs) \<Rightarrow>
          (case process_loop cfg eps (idx + 1) rest
                  (if success then success_count + 1 else success_count)
                  (if success then error_count else error_count + 1) of
             (r, evs') \<Rightarrow> (r, evs @ evs')))"

text \<open>
  The surroundings of a run: whether the output directory can be created, whether the
  engine accepts a connection, what happens while the combination with a given index is
  processed, and the outcome of \<open>client.disconnect\<close>.
\<close>

record environment =
  output_directory_ok :: bool
  connect_ok :: bool
  episodes :: "nat \<Rightarrow> episode"
  disconnect :: outcome

text \<open>
  \<open>run_batch_generation\<close>. Both handlers (\<^verbatim>\<open>except KeyboardInterrupt\<close> and
  \<^verbatim>\<open>except Exception\<close>) return \<open>False\<close>; the \<open>finally\<close> block disconnects once a
  client exists.
\<close>

definition run_batch_generation ::
  "environment \<Rightarrow> config \<Rightarrow> rng \<Rightarrow> (exc + bool) \<times> event list" where
  "run_batch_generation env cfg g =
     (if \<not> output_directory_ok env then (Inr False, [])
      else if \<not> connect_ok env then (Inr False, [])
      else
        (case (case generate_parameter_combinations cfg g of
                 Inl e \<Rightarrow> (Inr False, [])
               | Inr (combinations, g') \<Rightarrow>
                   (case process_loop cfg (episodes env) 1 combinations 0 0 of
                      (Inl x, evs) \<Rightarrow> (Inr False, evs)
                    | (Inr (success_count, error_count), evs) \<Rightarrow>
                        (Inr True,
                         evs @ [Complete (length combinations) success_count error_count]))) of
           (r, evs) \<Rightarrow>
             (case disconnect env of
                Some KeyboardInterrupt \<Rightarrow> (Inl KeyboardInterrupt, Connect # evs @ [Disconnect])
              | _ \<Rightarrow> (r, Connect # evs @ [Disconnect]))))"

subsection \<open>The demo orchestrator\<close>

text \<open>
  The demo has no engine. Processing a combination writes its files and returns whether
  the model file exists; an exception is caught, an interrupt is not.
\<close>

datatype demo_episode = Generated | NotCreated | Raised exc

definition demo_process_single_combination ::
  "demo_episode \<Rightarrow> nat \<Rightarrow> (exc + bool) \<times> event list" where
  "demo_process_single_combination ep idx =
     (case ep of
        Generated \<Rightarrow> (Inr True, [Save idx])
      | NotCreated \<Rightarrow> (Inr False, [])
      | Raised Exception \<Rightarrow> (Inr False, [])
      | Raised KeyboardInterrupt \<Rightarrow> (Inl KeyboardInterrupt, []))"

fun demo_process_loop ::
  "(nat \<Rightarrow> demo_episode) \<Rightarrow> nat \<Rightarrow> real dict list \<Rightarrow> nat \<Rightarrow> nat
     \<Rightarrow> (exc + nat \<times> nat) \<times> event list" where
  "demo_process_loop eps idx [] success_count error_count =
     (Inr (success_count, error_count), [])"
| "demo_process_loop eps idx (param_values # rest) success_count error_count =
     (case demo_process_single_combination (eps idx) idx of
        (Inl x, evs) \<Rightarrow> (Inl x, evs)
      | (Inr success, evs) \<Rightarrow>
          (case demo_process_loop eps (idx + 1) rest
                  (if success then success_count + 1 else success_count)
                  (if success then error_count else error_count + 1) of
             (r, evs') \<Rightarrow> (r, evs @ evs')))"

text \<open>
  The demo's \<open>generate_parameter_combinations\<close> thins with the fixed probability 0.5
  and reads only \<open>target_count\<close> from the configuration.
\<close>

definition demo_generate_parameter_combinations ::
  "config \<Rightarrow> rng \<Rightarrow> py_error + (real dict list \<times> rng)" where
  "demo_generate_parameter_combinations cfg g =
     (case filter_loop 0.5 (all_combinations (parameters cfg)) [] 0 g of
        Inl e \<Rightarrow> Inl e
      | Inr (parameter_combinations, excluded_count, g') \<Rightarrow>
          (let fc = (case batch_filtering cfg of None \<Rightarrow> empty_filtering | Some f \<Rightarrow> f);
               target = (case target_count fc of None \<Rightarrow> 868 | Some t \<Rightarrow> t)
           in Inr (sample_to_target parameter_combinations target g')))"

record demo_environment =
  demo_output_directory_ok :: bool
  demo_episodes :: "nat \<Rightarrow> demo_episode"
  summary_report :: outcome

text \<open>
  The demo's \<open>run_batch_generation\<close>: \<open>create_summary_report\<close> is called after the
  loop; the only handler is \<^verbatim>\<open>except Exception\<close>, so an interrupt leaves the function.
\<close>

definition demo_run_batch_generation ::
  "demo_environment \<Rightarrow> config \<Rightarrow> rng \<Rightarrow> (exc + bool) \<times> event list" where
  "demo_run_batch_generation env cfg g =
     (if \<not> demo_output_directory_ok env then (Inr False, [])
      else case demo_generate_parameter_combinations cfg g of
        Inl e \<Rightarrow> (Inr False, [])
      | Inr (combinations, g') \<Rightarrow>
          (case demo_process_loop (demo_episodes env) 1 combinations 0 0 of
             (Inl x, evs) \<Rightarrow> (except_Exception (Inl x), evs)
           | (Inr (success_count, error_count), evs) \<Rightarrow>
               (case summary_report env of
                  None \<Rightarrow>
                    (Inr True, evs @ [Summary (length combinations) success_count error_count])
                | Some x \<Rightarrow> (except_Exception (Inl x), evs))))"

subsection \<open>Vocabulary of the orchestrator statements\<close>

text \<open>
  An episode is free of interrupts when none of its steps raises \<open>KeyboardInterrupt\<close>.
  It acquires a model handle when the template exists and loads; it completes when every
  step up to the save succeeds, a failed mesh run counting as success only under
  \<open>error_tolerance = continue\<close>.
\<close>

definition interrupt_free :: "episode \<Rightarrow> bool" where
  "interrupt_free ep \<longleftrightarrow>
     load ep \<noteq> Some KeyboardInterrupt \<and> setup_parameters ep \<noteq> Some KeyboardInterrupt
     \<and> mesh_parameters ep \<noteq> Some KeyboardInterrupt \<and> mesh_run ep \<noteq> Some KeyboardInterrupt
     \<and> mesh_statistics ep \<noteq> Some KeyboardInterrupt \<and> filename ep \<noteq> Some KeyboardInterrupt
     \<and> save ep \<noteq> Some KeyboardInterrupt \<and> remove ep \<noteq> Some KeyboardInterrupt"

definition completes :: "config \<Rightarrow> episode \<Rightarrow> bool" where
  "completes cfg ep \<longleftrightarrow>
     template_exists ep \<and> load ep = None \<and> setup_parameters ep = None
     \<and> mesh_parameters ep = None
     \<and> (mesh_run ep = None \<or> error_tolerance cfg = Some ''continue'')
     \<and> filename ep = None \<and> save ep = None"

definition acquires :: "episode \<Rightarrow> bool" where
  "acquires ep \<longleftrightarrow> template_exists ep \<and> load ep = None"

text \<open>The events of one combination in an interrupt-free episode.\<close>

definition episode_trace :: "config \<Rightarrow> episode \<Rightarrow> nat \<Rightarrow> event list" where
  "episode_trace cfg ep idx =
     (if acquires ep
      then Load idx # (if completes cfg ep then [Save idx] else []) @ [Remove idx]
      else [])"

definition demo_episode_trace :: "demo_episode \<Rightarrow> nat \<Rightarrow> event list" where
  "demo_episode_trace ep idx = (if ep = Generated then [Save idx] else [])"

text \<open>
  A report is the final totals or the summary file. \<open>index_at_most k\<close> holds of the
  events that belong to no combination after the \<open>k\<close>-th.
\<close>

definition is_report :: "event \<Rightarrow> bool" where
  "is_report ev = (case ev of Summary t s e \<Rightarrow> True | Complete t s e \<Rightarrow> True | _ \<Rightarrow> False)"

definition index_at_most :: "nat \<Rightarrow> event \<Rightarrow> bool" where
  "index_at_most k ev = (case ev of Load i \<Rightarrow> i \<le> k | Save i \<Rightarrow> i \<le> k | Remove i \<Rightarrow> i \<le> k | _ \<Rightarrow> True)"

text \<open>
  Concrete surroundings: an episode in which every step succeeds, a configuration with
  three combinations, an engine whose save fails for the second combination, and runs
  interrupted during the second combination.
\<close>

definition smooth :: episode where
  "smooth =
     \<lparr>template_exists = True, load = None, setup_parameters = None, mesh_parameters = None,
      mesh_run = None, mesh_statistics = None, filename = None, save = None, remove = None\<rparr>"

definition three_config :: config where
  "three_config =
     \<lparr>parameters = [(''K_ch'', [1]), (''W_ch'', [1]), (''W_rib'', [1, 2, 3])],
      batch_filtering = None, error_tolerance = None, file_naming = None\<rparr>"

definition faulty_environment :: environment where
  "faulty_environment =
     \<lparr>output_directory_ok = True, connect_ok = True,
      episodes = (\<lambda>i. if i = 2 then smooth\<lparr>save := Some Exception\<rparr> else smooth),
      disconnect = None\<rparr>"

definition interrupted_environment :: environment where
  "interrupted_environment =
     \<lparr>output_directory_ok = True, connect_ok = True,
      episodes = (\<lambda>i. if i = 2 then smooth\<lparr>mesh_run := Some KeyboardInterrupt\<rparr> else smooth),
      disconnect = None\<rparr>"

definition interrupted_demo_environment :: demo_environment where
  "interrupted_demo_environment =
     \<lparr>demo_output_directory_ok = True,
      demo_episodes = (\<lambda>i. if i = 2 then Raised KeyboardInterrupt else Generated),
      summary_report = None\<rparr>"

section \<open>Binary64 Arithmetic\<close>

text \<open>
  Python's \<open>float\<close> is the IEEE 754 binary64 format. A finite double is given by its
  exact real value; the sign of a zero is not kept. Every operation rounds the exact
  result to the nearest double, a tie going to the even significand.
\<close>

text \<open>The nearest integer, a tie going to the even one.\<close>

definition round_half_even :: "real \<Rightarrow> int" where
  "round_half_even x =
     (let f = \<lfloor>x\<rfloor>; r = x - of_int f
      in if r < 1 / 2 then f else if r > 1 / 2 then f + 1 else if even f then f else f + 1)"

text \<open>The number of binary digits of a natural number.\<close>

fun bit_length :: "nat \<Rightarrow> nat" where
  "bit_length n = (if n = 0 then 0 else Suc (bit_length (n div 2)))"

declare bit_length.simps [simp del]

definition pow2 :: "int \<Rightarrow> real" where
  "pow2 e = (if e \<ge> 0 then 2 ^ nat e else 1 / 2 ^ nat (- e))"

text \<open>
  The binary exponent of a positive number \<open>x\<close>, the \<open>e\<close> with
  \<open>2\<^sup>e \<le> x < 2\<^sup>e\<^sup>+\<^sup>1\<close>.
\<close>

definition binary_exponent :: "real \<Rightarrow> int" where
  "binary_exponent x =
     (if x \<ge> 1 then int (bit_length (nat \<lfloor>x\<rfloor>)) - 1
      else - int (bit_length (nat (\<lceil>1 / x\<rceil> - 1))))"

text \<open>
  The distance between neighbouring doubles at \<open>x\<close>: 53 significant bits, and the
  fixed spacing \<open>2\<^sup>-\<^sup>1\<^sup>0\<^sup>7\<^sup>4\<close> below \<open>2\<^sup>-\<^sup>1\<^sup>0\<^sup>2\<^sup>2\<close>. \<open>nearest x\<close> is \<open>x\<close>
  rounded to a multiple of this distance, before the check for overflow.
\<close>

definition ulp :: "real \<Rightarrow> real" where
  "ulp x = pow2 (max (binary_exponent \<bar>x\<bar>) (- 1022) - 52)"

definition nearest :: "real \<Rightarrow> real" where
  "nearest x = (if x = 0 then 0 else of_int (round_half_even (x / ulp x)) * ulp x)"

text \<open>A double, and the result of an operation whose exact value is \<open>x\<close>.\<close>

datatype double = Finite real | PosInf | NegInf | NaN

definition ieee :: "real \<Rightarrow> double" where
  "ieee x =
     (let y = nearest x
      in if y \<ge> 2 ^ 1024 then PosInf else if y \<le> - (2 ^ 1024) then NegInf else Finite y)"

text \<open>
  \<open>a / b\<close> on floats raises \<open>ZeroDivisionError\<close> when \<open>b\<close> is zero and follows
  IEEE 754 otherwise.
\<close>

definition truediv :: "double \<Rightarrow> double \<Rightarrow> py_error + double" where
  "truediv a b =
     (case b of
        Finite y \<Rightarrow>
          if y = 0 then Inl ZeroDivisionError
          else Inr (case a of
                      Finite x \<Rightarrow> ieee (x / y)
                    | PosInf \<Rightarrow> if y > 0 then PosInf else NegInf
                    | NegInf \<Rightarrow> if y > 0 then NegInf else PosInf
                    | NaN \<Rightarrow> NaN)
      | NaN \<Rightarrow> Inr NaN
      | _ \<Rightarrow> Inr (case a of Finite x \<Rightarrow> Finite 0 | _ \<Rightarrow> NaN))"

text \<open>
  An \<open>int\<close> operand of a float operation is converted first, rounded like any other
  exact value; Python raises \<open>OverflowError\<close> when the result is not finite.
\<close>

definition float_of_int :: "int \<Rightarrow> py_error + double" where
  "float_of_int n =
     (case ieee (of_int n) of Finite y \<Rightarrow> Inr (Finite y) | _ \<Rightarrow> Inl OverflowError)"

definition truediv_int :: "double \<Rightarrow> int \<Rightarrow> py_error + double" where
  "truediv_int a n = (case float_of_int n of Inl e \<Rightarrow> Inl e | Inr b \<Rightarrow> truediv a b)"

text \<open>
  \<open>round(x)\<close> of a float: the nearest integer, a tie going to the even one; it raises
  on an infinity and on NaN.
\<close>

definition py_round :: "double \<Rightarrow> py_error + int" where
  "py_round x =
     (case x of
        Finite y \<Rightarrow> Inr (round_half_even y)
      | NaN \<Rightarrow> Inl ValueError
      | _ \<Rightarrow> Inl OverflowError)"

section \<open>Mesh Parameter Calculator\<close>

text \<open>The \<open>dict\<close> that \<open>calculate_mesh_parameters\<close> of the demo generator returns.\<close>

record mesh_params =
  interior_mesh_size :: double
  stream_width_mesh_size :: double
  stream_width_cells :: int
  stream_depth_mesh_size :: double
  stream_depth_cells :: int

text \<open>
  \<open>calculate_mesh_parameters\<close>: the interior mesh size \<open>K_ch / 5\<close>, then for the
  width \<open>K_ch\<close> and the depth \<open>W_ch\<close> the number of cells
  \<open>max(1, round(D / interior_mesh_size))\<close> and the mesh size \<open>D / cells\<close>. The
  statements run in the order of the source, and the first exception ends the call.
\<close>

definition calculate_mesh_parameters :: "real dict \<Rightarrow> py_error + mesh_params" where
  "calculate_mesh_parameters geom_params =
     (case getitem geom_params ''K_ch'' of Inl e \<Rightarrow> Inl e | Inr K_ch \<Rightarrow>
      case truediv_int (Finite K_ch) 5 of Inl e \<Rightarrow> Inl e | Inr interior \<Rightarrow>
      case truediv (Finite K_ch) interior of Inl e \<Rightarrow> Inl e | Inr width_cells \<Rightarrow>
      case py_round width_cells of Inl e \<Rightarrow> Inl e | Inr width_rounded \<Rightarrow>
      case truediv_int (Finite K_ch) (max 1 width_rounded) of Inl e \<Rightarrow> Inl e | Inr width_size \<Rightarrow>
      case getitem geom_params ''W_ch'' of Inl e \<Rightarrow> Inl e | Inr W_ch \<Rightarrow>
      case truediv (Finite W_ch) interior of Inl e \<Rightarrow> Inl e | Inr depth_cells \<Rightarrow>
      case py_round depth_cells of Inl e \<Rightarrow> Inl e | Inr depth_rounded \<Rightarrow>
      case truediv_int (Finite W_ch) (max 1 depth_rounded) of Inl e \<Rightarrow> Inl e | Inr depth_size \<Rightarrow>
      Inr \<lparr>interior_mesh_size = interior,
           stream_width_mesh_size = width_size,
           stream_width_cells = max 1 width_rounded,
           stream_depth_mesh_size = depth_size,
           stream_depth_cells = max 1 depth_rounded\<rparr>)"

subsection \<open>Vocabulary of the mesh statements\<close>

text \<open>
  The product \<open>axis_mesh_size * actual_cells\<close> as Python computes it from a finite
  mesh size and a number of cells.
\<close>

definition mesh_product :: "real \<Rightarrow> int \<Rightarrow> real" where
  "mesh_product mesh_size cells = nearest (mesh_size * nearest (of_int cells))"

text \<open>
  The geometry of the end-to-end scenario, and two geometries read from the JSON
  literals \<open>2.73\<close> and \<open>12345678.9\<close>.
\<close>

definition scenario_geometry :: "real dict" where
  "scenario_geometry = [(''K_ch'', 5 / 2), (''W_ch'', 3)]"

definition inexact_geometry :: "real dict" where
  "inexact_geometry = [(''K_ch'', nearest (273 / 100)), (''W_ch'', nearest (273 / 100))]"

definition large_geometry :: "real dict" where
  "large_geometry = [(''K_ch'', nearest (123456789 / 10)), (''W_ch'', nearest (123456789 / 10))]"

section \<open>Filename Encoder\<close>

text \<open>
  Python's number formatting. A value is a finite double, given by its exact real value
  (the value that \<open>json.load\<close> made of a decimal literal \<open>x\<close> is \<open>nearest x\<close>);
  \<open>f"{value:.3f}"\<close> and \<open>f"{value:.3e}"\<close> round this exact value to the nearest
  decimal with the digits asked for, a tie going to the even digit. The infinities, NaN
  and the negative zero are not among the values.
\<close>

definition digit :: "nat \<Rightarrow> char" where
  "digit d = ''0123456789'' ! d"

text \<open>The decimal digits of a natural number, without leading zeros.\<close>

fun digits :: "nat \<Rightarrow> string" where
  "digits n = (if n < 10 then [digit n] else digits (n div 10) @ [digit (n mod 10)])"

declare digits.simps [simp del]

definition zfill :: "nat \<Rightarrow> string \<Rightarrow> string" where
  "zfill width s = replicate (width - length s) CHR ''0'' @ s"

definition pow10 :: "int \<Rightarrow> real" where
  "pow10 e = (if e \<ge> 0 then 10 ^ nat e else 1 / 10 ^ nat (- e))"

text \<open>
  The decimal exponent of a positive number \<open>x\<close>, the \<open>e\<close> with
  \<open>10\<^sup>e \<le> x < 10\<^sup>e\<^sup>+\<^sup>1\<close>: one less than the number of digits of the integer part
  when \<open>x \<ge> 1\<close>, and read off the integer part of \<open>1 / x\<close> otherwise.
\<close>

definition decimal_exponent :: "real \<Rightarrow> int" where
  "decimal_exponent x =
     (if x \<ge> 1 then int (length (digits (nat \<lfloor>x\<rfloor>))) - 1
      else - int (length (digits (nat (\<lceil>1 / x\<rceil> - 1)))))"

text \<open>
  Mantissa (in thousandths) and exponent of the scientific notation of a positive
  number; a mantissa that rounds up to 10.000 becomes 1.000 with the next exponent.
\<close>

definition sci_parts :: "real \<Rightarrow> nat \<times> int" where
  "sci_parts x =
     (let e0 = decimal_exponent x;
          m0 = nat (round_half_even (x / pow10 e0 * 1000))
      in if m0 = 10000 then (1000, e0 + 1) else (m0, e0))"

definition sign :: "real \<Rightarrow> string" where
  "sign v = (if v < 0 then ''-'' else '''')"

text \<open>\<open>f"{value:.3f}"\<close>\<close>

definition format_f3 :: "real \<Rightarrow> string" where
  "format_f3 v =
     (let n = nat (round_half_even (\<bar>v\<bar> * 1000))
      in sign v @ digits (n div 1000) @ ''.'' @ zfill 3 (digits (n mod 1000)))"

text \<open>\<open>f"{value:.3e}"\<close>: the exponent has a sign and at least two digits.\<close>

definition format_e3 :: "real \<Rightarrow> string" where
  "format_e3 v =
     (if v = 0 then ''0.000e+00''
      else case sci_parts \<bar>v\<bar> of
        (m, e) \<Rightarrow>
          sign v @ digits (m div 1000) @ ''.'' @ zfill 3 (digits (m mod 1000))
            @ ''e'' @ (if e < 0 then ''-'' else ''+'') @ zfill 2 (digits (nat \<bar>e\<bar>)))"

text \<open>The choice of \<open>generate_filename\<close> between the two notations.\<close>

definition format_value :: "real \<Rightarrow> string" where
  "format_value v =
     (if \<bar>v\<bar> < 1 / 100 \<or> \<bar>v\<bar> > 1000000 then format_e3 v else format_f3 v)"

text \<open>
  \<open>format_str.format(**formatted_params)\<close>: the pieces from left to right, the first
  exception ending the call; a plain field with a missing key raises \<open>KeyError\<close>.
\<close>

fun str_format :: "piece list \<Rightarrow> string dict \<Rightarrow> py_error + string" where
  "str_format [] d = Inr []"
| "str_format (Lit s # ps) d =
     (case str_format ps d of Inl e \<Rightarrow> Inl e | Inr r \<Rightarrow> Inr (s @ r))"
| "str_format (Field k # ps) d =
     (case getitem d k of
        Inl e \<Rightarrow> Inl e
      | Inr v \<Rightarrow> (case str_format ps d of Inl e \<Rightarrow> Inl e | Inr r \<Rightarrow> Inr (v @ r)))"
| "str_format (Other f # ps) d =
     (case f d of
        Inl e \<Rightarrow> Inl e
      | Inr v \<Rightarrow> (case str_format ps d of Inl e \<Rightarrow> Inl e | Inr r \<Rightarrow> Inr (v @ r)))"

text \<open>\<open>filename.replace("e+", "e")\<close>: every occurrence, from left to right.\<close>

fun replace_e_plus :: "string \<Rightarrow> string" where
  "replace_e_plus (c # d # s) =
     (if c = CHR ''e'' \<and> d = CHR ''+'' then CHR ''e'' # replace_e_plus s
      else c # replace_e_plus (d # s))"
| "replace_e_plus s = s"

definition default_format :: "piece list" where
  "default_format =
     [Lit ''batch_model_Kch_'', Field ''K_ch'', Lit ''_Wch_'', Field ''W_ch'',
      Lit ''_Wrib_'', Field ''W_rib'']"

definition empty_naming :: naming_config where
  "empty_naming = \<lparr>format = None, extension = None\<rparr>"

text \<open>\<open>generate_filename\<close> of the demo generator.\<close>

definition generate_filename :: "config \<Rightarrow> real dict \<Rightarrow> py_error + string" where
  "generate_filename cfg param_values =
     (let naming = (case file_naming cfg of None \<Rightarrow> empty_naming | Some n \<Rightarrow> n);
          format_str = (case format naming of None \<Rightarrow> default_format | Some f \<Rightarrow> f);
          ext = (case extension naming of None \<Rightarrow> ''.mph'' | Some e \<Rightarrow> e);
          formatted_params = map (\<lambda>(key, value). (key, format_value value)) param_values
      in case str_format format_str formatted_params of
           Inl e \<Rightarrow> Inl e
         | Inr name \<Rightarrow> Inr (replace_e_plus (name @ ext)))"

subsection \<open>Vocabulary of the encoder statements\<close>

text \<open>
  A numeric string holds digits, the decimal point and the minus sign only. A rendered
  value is a non-empty numeric string, alone or followed by \<open>e\<close>, a sign and a
  non-empty string of digits.
\<close>

definition numeric :: "string \<Rightarrow> bool" where
  "numeric s \<longleftrightarrow> set s \<subseteq> set ''-.0123456789''"

definition rendered :: "string \<Rightarrow> bool" where
  "rendered r \<longleftrightarrow>
     (\<exists>a. a \<noteq> [] \<and> numeric a
        \<and> (r = a
           \<or> (\<exists>t d. r = a @ CHR ''e'' # t # d \<and> (t = CHR ''+'' \<or> t = CHR ''-'')
                  \<and> d \<noteq> [] \<and> set d \<subseteq> set ''0123456789'')))"

text \<open>A naming configuration whose name is the rendering of one value and nothing else.\<close>

definition single_field :: config where
  "single_field =
     \<lparr>parameters = [], batch_filtering = None, error_tolerance = None,
      file_naming = Some \<lparr>format = Some [Field ''value''], extension = Some ''''\<rparr>\<rparr>"

subsection \<open>Vocabulary of the collision statements\<close>

text \<open>
  The format and the extension that \<open>generate_filename\<close> reads from the
  configuration, with its defaults.
\<close>

definition template :: "config \<Rightarrow> piece list" where
  "template cfg =
     (case format (case file_naming cfg of None \<Rightarrow> empty_naming | Some n \<Rightarrow> n) of
        None \<Rightarrow> default_format
      | Some f \<Rightarrow> f)"

definition suffix_of :: "config \<Rightarrow> string" where
  "suffix_of cfg =
     (case extension (case file_naming cfg of None \<Rightarrow> empty_naming | Some n \<Rightarrow> n) of
        None \<Rightarrow> ''.mph''
      | Some e \<Rightarrow> e)"

text \<open>
  A separator is a character that occurs in no rendered value. A format is well separated
  when every replacement field is a name and nothing else, and is the last piece or is
  followed by a literal that starts with a separator.
\<close>

definition separator :: "char \<Rightarrow> bool" where
  "separator c \<longleftrightarrow> c \<notin> set ''+-.0123456789e''"

definition starts_with_separator :: "piece list \<Rightarrow> bool" where
  "starts_with_separator ps =
     (case ps of Lit (c # cs) # rest \<Rightarrow> separator c | _ \<Rightarrow> False)"

fun well_separated :: "piece list \<Rightarrow> bool" where
  "well_separated [] = True"
| "well_separated (Lit s # ps) = well_separated ps"
| "well_separated (Field k # ps) = ((ps = [] \<or> starts_with_separator ps) \<and> well_separated ps)"
| "well_separated (Other f # ps) = False"

text \<open>
  A format of two adjacent placeholders, and two combinations read from
  \<open>{"K_ch": 1e10, "W_ch": 12}\<close> and \<open>{"K_ch": 1e101, "W_ch": 2}\<close>.
\<close>

definition adjacent_config :: config where
  "adjacent_config =
     \<lparr>parameters = [], batch_filtering = None, error_tolerance = None,
      file_naming = Some \<lparr>format = Some [Field ''K_ch'', Field ''W_ch''], extension = None\<rparr>\<rparr>"

definition collision_a :: "real dict" where
  "collision_a = [(''K_ch'', 10 ^ 10), (''W_ch'', 12)]"

definition collision_b :: "real dict" where
  "collision_b = [(''K_ch'', nearest (10 ^ 101)), (''W_ch'', 2)]"

text \<open>
  The replacement field \<open>{k:.n}\<close>: the value of \<open>k\<close>, a string, cut to its first
  \<open>n\<close> characters. The format \<open>m_{K_ch:.1}_x\<close>.
\<close>

definition precision_field :: "string \<Rightarrow> nat \<Rightarrow> piece" where
  "precision_field k n =
     Other (\<lambda>d. case getitem d k of Inl e \<Rightarrow> Inl e | Inr v \<Rightarrow> Inr (take n v))"

definition truncating_config :: config where
  "truncating_config =
     \<lparr>parameters = [], batch_filtering = None, error_tolerance = None,
      file_naming = Some \<lparr>format = Some [Lit ''m_'', precision_field ''K_ch'' 1, Lit ''_x''],
                           extension = None\<rparr>\<rparr>"

text \<open>
  Two combinations for the default format whose first values, read from \<open>1.0\<close> and
  \<open>1.0001\<close>, differ by less than the rendering shows.
\<close>

definition near_a :: "real dict" where
  "near_a = [(''K_ch'', 1), (''W_ch'', 1), (''W_rib'', 5)]"

definition near_b :: "real dict" where
  "near_b = [(''K_ch'', nearest (10001 / 10000)), (''W_ch'', 1), (''W_rib'', 5)]"
section \<open>Properties of the Combination Generator\<close>

lemma itertools_product_eq: "itertools_product xss = product_lists xss"
  by (induction xss) simp_all

lemma length_itertools_product:
  "length (itertools_product xss) = prod_list (map length xss)"
  by (induction xss) (simp_all add: length_concat comp_def sum_list_triv)

lemma length_all_combinations:
  "length (all_combinations ps) = prod_list (map (\<lambda>(name, vs). length vs) ps)"
  by (simp add: all_combinations_def length_itertools_product comp_def case_prod_unfold)

lemma sorted_wrt_concat_map:
  assumes "\<And>x. x \<in> set xs \<Longrightarrow> sorted_wrt P (f x)"
    and "sorted_wrt (\<lambda>x y. \<forall>a \<in> set (f x). \<forall>b \<in> set (f y). P a b) xs"
  shows "sorted_wrt P (concat (map f xs))"
  using assms by (induction xs) (auto simp: sorted_wrt_append)

lemma sorted_index_tuples: "sorted_wrt (<) (index_tuples ks)"
proof (induction ks)
  case Nil
  show ?case by (simp add: index_tuples_def)
next
  case (Cons k ks)
  have inner: "sorted_wrt (<) (map (\<lambda>t. i # t) (index_tuples ks))" for i
    using Cons.IH by (simp add: sorted_wrt_map)
  have outer: "sorted_wrt (\<lambda>x y. \<forall>a \<in> set (map (\<lambda>t. x # t) (index_tuples ks)).
                  \<forall>b \<in> set (map (\<lambda>t. y # t) (index_tuples ks)). a < b) [0..<k]"
    by (rule sorted_wrt_mono_rel [OF _ sorted_wrt_upt]) auto
  show ?case
    unfolding index_tuples_def list.map itertools_product.simps
    using sorted_wrt_concat_map [where f = "\<lambda>x. map (\<lambda>t. x # t) (index_tuples ks)" and xs = "[0..<k]" and P = "(<)"]
      inner outer
    by (simp add: index_tuples_def)
qed

lemma set_index_tuples: "set (index_tuples ks) = {idx. list_all2 (<) idx ks}"
proof -
  have "list_all2 (\<lambda>x ys. x \<in> set ys) idx (map (\<lambda>k. [0..<k]) ks) \<longleftrightarrow> list_all2 (<) idx ks" for idx
    by (simp add: list_all2_map2)
  then show ?thesis
    by (simp add: index_tuples_def itertools_product_eq product_lists_set)
qed

lemma map_via_nth: "map f xs = map (\<lambda>i. f (xs ! i)) [0..<length xs]"
  by (rule nth_equalityI) simp_all

lemma itertools_product_map_nth:
  "itertools_product xss = map (\<lambda>idx. map2 (\<lambda>xs i. xs ! i) xss idx) (index_tuples (map length xss))"
proof (induction xss)
  case Nil
  show ?case by (simp add: index_tuples_def)
next
  case (Cons xs xss)
  have "itertools_product (xs # xss)
        = concat (map (\<lambda>i. map (\<lambda>t. xs ! i # t) (itertools_product xss)) [0..<length xs])"
    unfolding itertools_product.simps
    by (subst map_via_nth [of _ xs]) simp
  also have "\<dots> = map (\<lambda>idx. map2 (\<lambda>xs i. xs ! i) (xs # xss) idx) (index_tuples (map length (xs # xss)))"
    by (subst Cons.IH) (simp add: index_tuples_def map_concat comp_def)
  finally show ?case .
qed


lemma zip_names_select:
  "zip (map fst ps) (map2 (\<lambda>xs i. xs ! i) (map snd ps) idx) = select ps idx"
proof (induction ps arbitrary: idx)
  case Nil
  show ?case by (simp add: select_def)
next
  case (Cons p ps)
  then show ?case by (cases idx) (auto simp: select_def split: prod.splits)
qed

lemma all_combinations_select:
  "all_combinations ps = map (select ps) (index_tuples (map (\<lambda>(name, vs). length vs) ps))"
proof -
  have e: "(\<lambda>(name, vs). length vs) = length \<circ> snd"
    by (auto simp: fun_eq_iff)
  show ?thesis
    unfolding all_combinations_def Let_def e
    by (subst itertools_product_map_nth) (simp add: zip_names_select comp_def)
qed

lemma keys_all_combinations:
  assumes "c \<in> set (all_combinations ps)"
  shows "map fst c = map fst ps \<and> list_all2 (\<lambda>v vs. v \<in> set vs) (map snd c) (map snd ps)"
proof -
  from assms obtain vals where v: "vals \<in> set (product_lists (map snd ps))"
    and c: "c = zip (map fst ps) vals"
    by (auto simp: all_combinations_def itertools_product_eq)
  from v have len: "length vals = length ps"
    using in_set_product_lists_length by fastforce
  from v have "list_all2 (\<lambda>v vs. v \<in> set vs) vals (map snd ps)"
    by (simp add: product_lists_set)
  with len c show ?thesis by simp
qed

lemma distinct_all_combinations:
  assumes "wf_dict ps" and "list_all distinct (map snd ps)"
  shows "distinct (map map_of (all_combinations ps))"
proof -
  have d: "distinct (product_lists (map snd ps))"
    using assms(2) by (intro distinct_product_lists) (simp add: list_all_iff)
  have inj: "inj_on (\<lambda>vals. map_of (zip (map fst ps) vals)) (set (product_lists (map snd ps)))"
  proof (rule inj_onI)
    fix xs ys
    assume "xs \<in> set (product_lists (map snd ps))" "ys \<in> set (product_lists (map snd ps))"
      and eq: "map_of (zip (map fst ps) xs) = map_of (zip (map fst ps) ys)"
    then have "length xs = length (map fst ps)" "length ys = length (map fst ps)"
      using in_set_product_lists_length by fastforce+
    with eq assms(1) show "xs = ys"
      unfolding wf_dict_def by (metis map_of_zip_inject)
  qed
  show ?thesis
    unfolding all_combinations_def Let_def itertools_product_eq
    using d inj by (simp add: distinct_map comp_def)
qed

text \<open>
  C1 (amended). For a parameter space \<open>ps\<close> (a \<open>dict\<close>, so its names are pairwise
  different) whose value lists have lengths \<open>k\<^sub>1, \<dots>, k\<^sub>n\<close>, the generator returns
  exactly \<open>k\<^sub>1 * \<dots> * k\<^sub>n\<close> combinations; each has exactly the parameter names as its
  keys, in order, with a value taken from the list of its name; the list is the image of
  the index tuples in strictly increasing lexicographic order, and these are all the
  tuples with \<open>i\<^sub>m < k\<^sub>m\<close>. All this holds for every parameter space. When no value list
  repeats a value, the combinations are moreover pairwise different as mappings.
\<close>

theorem all_combinations_cartesian:
  "length (all_combinations ps) = prod_list (map (\<lambda>(name, vs). length vs) ps)
    \<and> (\<forall>c \<in> set (all_combinations ps).
          map fst c = map fst ps \<and> list_all2 (\<lambda>v vs. v \<in> set vs) (map snd c) (map snd ps))
    \<and> (wf_dict ps \<and> list_all distinct (map snd ps)
          \<longrightarrow> distinct (map map_of (all_combinations ps)))
    \<and> all_combinations ps = map (select ps) (index_tuples (map (\<lambda>(name, vs). length vs) ps))
    \<and> sorted_wrt (<) (index_tuples (map (\<lambda>(name, vs). length vs) ps))
    \<and> set (index_tuples (map (\<lambda>(name, vs). length vs) ps))
        = {idx. list_all2 (<) idx (map (\<lambda>(name, vs). length vs) ps)}"
proof -
  note length_all_combinations
  moreover note keys_all_combinations distinct_all_combinations
    all_combinations_select sorted_index_tuples set_index_tuples
  ultimately show ?thesis by blast
qed

text \<open>
  The scenario space has three names with two values each and no repeated value: the
  generator returns 8 combinations, pairwise different, each with the three names in
  order.
\<close>

theorem all_combinations_cartesian_witness:
  "wf_dict scenario_space \<and> list_all distinct (map snd scenario_space)
   \<and> length (all_combinations scenario_space) = 8
   \<and> distinct (map map_of (all_combinations scenario_space))
   \<and> list_all (\<lambda>c. map fst c = map fst scenario_space) (all_combinations scenario_space)"
proof -
  have wf: "wf_dict scenario_space"
    by (simp add: scenario_space_def wf_dict_def)
  have dv: "list_all distinct (map snd scenario_space)"
    by (simp add: scenario_space_def)
  from all_combinations_cartesian [of scenario_space] wf dv
  have "length (all_combinations scenario_space)
          = prod_list (map (\<lambda>(name, vs). length vs) scenario_space)"
    and "distinct (map map_of (all_combinations scenario_space))"
    and "\<forall>c \<in> set (all_combinations scenario_space). map fst c = map fst scenario_space"
    by blast+
  with wf dv show ?thesis by (simp add: scenario_space_def list_all_iff)
qed

theorem repeated_value_counterexample:
  "length (all_combinations [(''K_ch'', [1, 1])]) = 2
   \<and> \<not> distinct (all_combinations [(''K_ch'', [1, 1])])"
  by (simp add: all_combinations_def)

section \<open>Properties of the Binary64 Arithmetic\<close>

subsection \<open>Rounding to an integer\<close>

lemma round_half_even_cases:
  "round_half_even x = \<lfloor>x\<rfloor> \<and> x - of_int \<lfloor>x\<rfloor> \<le> 1 / 2
   \<or> round_half_even x = \<lfloor>x\<rfloor> + 1 \<and> 1 / 2 \<le> x - of_int \<lfloor>x\<rfloor>"
  by (auto simp: round_half_even_def Let_def)

lemma round_half_even_error: "\<bar>real_of_int (round_half_even x) - x\<bar> \<le> 1 / 2"
proof -
  have "of_int \<lfloor>x\<rfloor> \<le> x" "x < of_int \<lfloor>x\<rfloor> + 1" by linarith+
  with round_half_even_cases [of x] show ?thesis by auto
qed

lemma round_half_even_ge: "real_of_int a \<le> x \<Longrightarrow> a \<le> round_half_even x"
proof -
  assume "real_of_int a \<le> x"
  then have "a \<le> \<lfloor>x\<rfloor>" by (simp add: le_floor_iff)
  with round_half_even_cases [of x] show ?thesis by auto
qed

lemma round_half_even_le: "x \<le> real_of_int b \<Longrightarrow> round_half_even x \<le> b"
proof -
  assume le: "x \<le> real_of_int b"
  show ?thesis
  proof (cases "x = real_of_int b")
    case True
    then show ?thesis by (simp add: round_half_even_def)
  next
    case False
    with le have "x < real_of_int b" by simp
    then have "\<lfloor>x\<rfloor> < b" by (simp add: floor_less_iff)
    with round_half_even_cases [of x] show ?thesis by auto
  qed
qed

lemma round_half_even_of_int: "round_half_even (of_int n) = n"
  by (simp add: round_half_even_def)

lemma round_half_even_5: "9 / 2 < x \<Longrightarrow> x < 11 / 2 \<Longrightarrow> round_half_even x = 5"
proof -
  assume a: "9 / 2 < x" "x < 11 / 2"
  then have "4 \<le> \<lfloor>x\<rfloor>" "\<lfloor>x\<rfloor> \<le> 5" by (simp_all add: le_floor_iff floor_le_iff)
  then consider "\<lfloor>x\<rfloor> = 4" | "\<lfloor>x\<rfloor> = 5" by linarith
  then show ?thesis
  proof cases
    case 1
    with a show ?thesis by (simp add: round_half_even_def)
  next
    case 2
    with a show ?thesis by (simp add: round_half_even_def)
  qed
qed

subsection \<open>The binary exponent\<close>

lemma bit_length_0: "bit_length 0 = 0"
  by (subst bit_length.simps) simp

lemma bit_length_pos: "0 < n \<Longrightarrow> bit_length n = Suc (bit_length (n div 2))"
  by (subst bit_length.simps) simp

lemma bit_length_bounds:
  "0 < n \<Longrightarrow> 2 ^ (bit_length n - 1) \<le> n \<and> n < 2 ^ bit_length n"
proof (induction n rule: bit_length.induct)
  case (1 n)
  show ?case
  proof (cases "n div 2 = 0")
    case True
    with 1(2) have "n = 1" by (simp add: div_eq_0_iff) 
    then show ?thesis by (simp add: bit_length_pos bit_length_0)
  next
    case False
    then have pos: "0 < n div 2" by simp
    from 1(2) have n0: "n \<noteq> 0" by simp
    from 1(1) [OF n0 pos]
    have lo: "2 ^ (bit_length (n div 2) - 1) \<le> n div 2"
      and hi: "n div 2 < 2 ^ bit_length (n div 2)" by simp_all
    have len: "bit_length n = Suc (bit_length (n div 2))"
      using 1(2) by (rule bit_length_pos)
    have l1: "bit_length (n div 2) = Suc (bit_length (n div 2) - 1)"
      using pos by (simp add: bit_length_pos)
    from lo have "2 * 2 ^ (bit_length (n div 2) - 1) \<le> 2 * (n div 2)" by simp
    also have "\<dots> \<le> n" by simp
    finally have a: "2 ^ bit_length (n div 2) \<le> n"
      by (subst l1) simp
    from hi have "Suc (n div 2) \<le> 2 ^ bit_length (n div 2)" by simp
    then have "2 * Suc (n div 2) \<le> 2 * 2 ^ bit_length (n div 2)"
      by (rule mult_le_mono2)
    moreover have "n < 2 * Suc (n div 2)"
      by (simp add: dividend_less_times_div)
    ultimately have b: "n < 2 ^ Suc (bit_length (n div 2))" by simp
    from a b show ?thesis by (simp add: len)
  qed
qed

lemma pow2_powi: "pow2 e = 2 powi e"
  by (simp add: pow2_def power_int_def inverse_eq_divide power_one_over)

lemma pow2_pos: "0 < pow2 e"
  by (simp add: pow2_powi)

lemma pow2_add: "pow2 (a + b) = pow2 a * pow2 b"
  by (simp add: pow2_powi power_int_add)

lemma pow2_mono: "a \<le> b \<Longrightarrow> pow2 a \<le> pow2 b"
  by (simp add: pow2_powi power_int_increasing)

lemma pow2_nat: "pow2 (int k) = 2 ^ k"
  by (simp add: pow2_def)

lemma pow2_neg: "pow2 (- int k) = 1 / 2 ^ k"
  by (simp add: pow2_powi power_int_minus inverse_eq_divide)

lemma binary_exponent_bounds:
  assumes "0 < x"
  shows "pow2 (binary_exponent x) \<le> x \<and> x < pow2 (binary_exponent x + 1)"
proof (cases "1 \<le> x")
  case True
  define n where "n = nat \<lfloor>x\<rfloor>"
  define L where "L = bit_length n"
  from True have n: "0 < n" by (simp add: n_def)
  from True have fl: "real n \<le> x" "x < real n + 1" by (simp_all add: n_def)
  from bit_length_bounds [OF n] have lo: "2 ^ (L - 1) \<le> n" and hi: "n < 2 ^ L"
    by (simp_all add: L_def)
  have L: "Suc 0 \<le> L" using n by (simp add: L_def bit_length_pos)
  then have L1: "int (L - 1) = int L - 1" by (simp add: of_nat_diff)
  have e: "binary_exponent x = int (L - 1)"
    unfolding L1 using True by (simp add: binary_exponent_def L_def n_def)
  have e1: "binary_exponent x + 1 = int L"
    unfolding e L1 by simp
  from of_nat_mono [OF lo, where 'a = real] have "2 ^ (L - 1) \<le> real n" by simp
  with fl(1) have a: "pow2 (binary_exponent x) \<le> x"
    unfolding e pow2_nat by linarith
  from hi have "Suc n \<le> 2 ^ L" by simp
  from of_nat_mono [OF this, where 'a = real] have "real n + 1 \<le> 2 ^ L" by simp
  with fl(2) have b: "x < pow2 (binary_exponent x + 1)"
    unfolding e1 pow2_nat by linarith
  from a b show ?thesis ..
next
  case False
  with assms have x1: "x < 1" by simp
  define y where "y = 1 / x"
  define k where "k = nat (\<lceil>y\<rceil> - 1)"
  define L where "L = bit_length k"
  from assms x1 have y1: "1 < y" by (simp add: y_def)
  then have c2: "2 \<le> \<lceil>y\<rceil>" by linarith
  then have k: "0 < k" by (simp add: k_def)
  have rk: "real k = real_of_int \<lceil>y\<rceil> - 1" using c2 by (simp add: k_def)
  have ky: "real k < y" "y \<le> real k + 1"
    unfolding rk by linarith+
  from bit_length_bounds [OF k] have lo: "2 ^ (L - 1) \<le> k" and hi: "k < 2 ^ L"
    by (simp_all add: L_def)
  have L: "Suc 0 \<le> L" using k by (simp add: L_def bit_length_pos)
  then have L1: "int (L - 1) = int L - 1" by (simp add: of_nat_diff)
  have e: "binary_exponent x = - int L"
    using False by (simp add: binary_exponent_def L_def k_def y_def)
  have e1: "binary_exponent x + 1 = - int (L - 1)"
    unfolding e L1 by simp
  from hi have "Suc k \<le> 2 ^ L" by simp
  from of_nat_mono [OF this, where 'a = real] have "real k + 1 \<le> 2 ^ L" by simp
  with ky(2) have "1 / x \<le> 2 ^ L" unfolding y_def by linarith
  with assms have "1 \<le> 2 ^ L * x" by (simp add: field_simps)
  with assms have a: "pow2 (binary_exponent x) \<le> x"
    unfolding e pow2_neg by (simp add: field_simps)
  from of_nat_mono [OF lo, where 'a = real] have "2 ^ (L - 1) \<le> real k" by simp
  with ky(1) have "2 ^ (L - 1) < 1 / x" unfolding y_def by linarith
  with assms have "2 ^ (L - 1) * x < 1" by (simp add: field_simps)
  with assms have b: "x < pow2 (binary_exponent x + 1)"
    unfolding e1 pow2_neg by (simp add: field_simps)
  from a b show ?thesis ..
qed

lemma binary_exponent_unique:
  assumes "pow2 e \<le> x" and "x < pow2 (e + 1)"
  shows "binary_exponent x = e"
proof -
  from assms(1) pow2_pos [of e] have pos: "0 < x" by linarith
  note b = binary_exponent_bounds [OF pos]
  let ?d = "binary_exponent x"
  have "\<not> ?d < e"
  proof
    assume "?d < e"
    then have "pow2 (?d + 1) \<le> pow2 e" by (intro pow2_mono) simp
    with b assms(1) show False by linarith
  qed
  moreover have "\<not> e < ?d"
  proof
    assume "e < ?d"
    then have "pow2 (e + 1) \<le> pow2 ?d" by (intro pow2_mono) simp
    with b assms(2) show False by linarith
  qed
  ultimately show ?thesis by simp
qed

subsection \<open>Rounding to a double\<close>

lemma ulp_pos: "0 < ulp x"
  by (simp add: ulp_def pow2_pos)

lemma nearest_error: "\<bar>nearest x - x\<bar> \<le> ulp x / 2"
proof (cases "x = 0")
  case True
  then show ?thesis using ulp_pos [of 0] by (simp add: nearest_def)
next
  case False
  define u where "u = ulp x"
  have u: "0 < u" by (simp add: u_def ulp_pos)
  define r where "r = real_of_int (round_half_even (x / u))"
  have "nearest x - x = (r - x / u) * u"
    using False u by (simp add: nearest_def u_def r_def left_diff_distrib)
  then have "\<bar>nearest x - x\<bar> = \<bar>r - x / u\<bar> * u"
    using u by (simp add: abs_mult)
  then have "\<bar>nearest x - x\<bar> = \<bar>real_of_int (round_half_even (x / u)) - x / u\<bar> * u"
    by (simp add: r_def)
  also have "\<dots> \<le> 1 / 2 * u"
    using round_half_even_error [of "x / u"] u by (intro mult_right_mono) simp_all
  finally show ?thesis by (simp add: u_def)
qed

lemma ulp_normal:
  assumes "pow2 (- 1022) \<le> x"
  shows "ulp x \<le> x / 2 ^ 52"
proof -
  from assms pow2_pos [of "- 1022"] have pos: "0 < x" by linarith
  note b = binary_exponent_bounds [OF pos]
  have e: "- 1022 \<le> binary_exponent x"
  proof (rule ccontr)
    assume "\<not> - 1022 \<le> binary_exponent x"
    then have "pow2 (binary_exponent x + 1) \<le> pow2 (- 1022)" by (intro pow2_mono) simp
    with b assms show False by linarith
  qed
  have "ulp x = pow2 (binary_exponent x + - 52)"
    using e pos by (simp add: ulp_def max_def)
  also have "\<dots> = pow2 (binary_exponent x) / 2 ^ 52"
    unfolding pow2_add using pow2_neg [of 52] by simp
  also have "\<dots> \<le> x / 2 ^ 52"
    using b by (simp add: divide_right_mono)
  finally show ?thesis .
qed

lemma nearest_relative:
  assumes "pow2 (- 1022) \<le> x"
  shows "\<bar>nearest x - x\<bar> \<le> x / 2 ^ 53"
proof -
  have "\<bar>nearest x - x\<bar> \<le> ulp x / 2" by (rule nearest_error)
  also have "\<dots> \<le> x / 2 ^ 52 / 2" using ulp_normal [OF assms] by simp
  also have "\<dots> = x / 2 ^ 53" by simp
  finally show ?thesis .
qed

lemma ulp_eval:
  assumes "pow2 e \<le> \<bar>x\<bar>" and "\<bar>x\<bar> < pow2 (e + 1)" and "- 1022 \<le> e"
  shows "ulp x = pow2 (e - 52)"
  using binary_exponent_unique [OF assms(1,2)] assms(3) by (simp add: ulp_def max_def)

lemma nearest_eval:
  assumes "pow2 e \<le> \<bar>x\<bar>" and "\<bar>x\<bar> < pow2 (e + 1)" and "- 1022 \<le> e"
  shows "nearest x = of_int (round_half_even (x / pow2 (e - 52))) * pow2 (e - 52)"
proof -
  from assms(1) pow2_pos [of e] have "x \<noteq> 0" by auto
  then show ?thesis by (simp add: nearest_def ulp_eval [OF assms])
qed

lemma nearest_fixed:
  assumes "pow2 e \<le> \<bar>x\<bar>" and "\<bar>x\<bar> < pow2 (e + 1)" and "- 1022 \<le> e"
    and "x = of_int m * pow2 (e - 52)"
  shows "nearest x = x"
proof -
  have q: "x / pow2 (e - 52) = of_int m"
    using pow2_pos [of "e - 52"] by (simp add: assms(4))
  have "nearest x = of_int m * pow2 (e - 52)"
    unfolding nearest_eval [OF assms(1-3)] q round_half_even_of_int ..
  then show ?thesis by (simp only: assms(4))
qed

lemma ieee_finite: "\<bar>nearest x\<bar> < 2 ^ 1024 \<Longrightarrow> ieee x = Finite (nearest x)"
  by (simp add: ieee_def Let_def abs_less_iff not_le)

lemma nearest_5: "nearest 5 = 5"
  by (rule nearest_fixed [where e = 2 and m = "5 * 2 ^ 50"]) (simp_all add: pow2_def)

lemma nearest_6: "nearest 6 = 6"
  by (rule nearest_fixed [where e = 2 and m = "6 * 2 ^ 50"]) (simp_all add: pow2_def)

lemma nearest_half: "nearest (1 / 2) = 1 / 2"
  by (rule nearest_fixed [where e = "- 1" and m = "2 ^ 52"]) (simp_all add: pow2_def)

lemma nearest_bounds:
  assumes "1 / 2 ^ 1022 \<le> x"
  shows "\<bar>nearest x - x\<bar> \<le> x / 2 ^ 53"
    and "x * (99 / 100) \<le> nearest x" and "nearest x \<le> x * (101 / 100)"
proof -
  have p: "pow2 (- 1022) = 1 / 2 ^ 1022" by (simp add: pow2_def)
  have "(0::real) < 1 / 2 ^ 1022" by simp
  with assms have x: "0 < x" by linarith
  from assms show a: "\<bar>nearest x - x\<bar> \<le> x / 2 ^ 53"
    using nearest_relative [of x] unfolding p by simp
  have "x / 2 ^ 53 \<le> x / 100" using x by (intro divide_left_mono) simp_all
  with a have b: "\<bar>nearest x - x\<bar> \<le> x / 100" by linarith
  from b show "x * (99 / 100) \<le> nearest x" by linarith
  from b show "nearest x \<le> x * (101 / 100)" by linarith
qed

lemma two_roundings:
  fixes D p q :: real
  assumes "0 < D" and "\<bar>q - D\<bar> \<le> D / 2 ^ 53" and "\<bar>p - q\<bar> \<le> q / 2 ^ 53"
  shows "\<bar>p - D\<bar> \<le> D / 2 ^ 51"
proof -
  have "D / 2 ^ 53 \<le> D" using assms(1) by (simp add: field_simps)
  with assms(2) have "q \<le> 2 * D" by linarith
  then have "q / 2 ^ 53 \<le> 2 * D / 2 ^ 53" by (simp add: divide_right_mono)
  with assms(3) have "\<bar>p - q\<bar> \<le> 2 * D / 2 ^ 53" by linarith
  with assms(2) have "\<bar>p - D\<bar> \<le> 2 * D / 2 ^ 53 + D / 2 ^ 53" by linarith
  also have "\<dots> \<le> D / 2 ^ 51" using assms(1) by (simp add: field_simps)
  finally show ?thesis .
qed

lemma quotient_error:
  fixes x y m :: real
  assumes "0 < y" and "\<bar>m - x / y\<bar> \<le> x / y / 2 ^ 53"
  shows "\<bar>m * y - x\<bar> \<le> x / 2 ^ 53"
proof -
  have "m * y - x = (m - x / y) * y" using assms(1) by (simp add: left_diff_distrib)
  then have "\<bar>m * y - x\<bar> = \<bar>m - x / y\<bar> * y" using assms(1) by (simp add: abs_mult)
  also have "\<dots> \<le> x / y / 2 ^ 53 * y" using assms by (intro mult_right_mono) simp_all
  also have "\<dots> = x / 2 ^ 53" using assms(1) by simp
  finally show ?thesis .
qed

section \<open>Properties of the Mesh Parameter Calculator\<close>

subsection \<open>The operations on values in range\<close>

lemma truediv_finite:
  "y \<noteq> 0 \<Longrightarrow> \<bar>nearest (x / y)\<bar> < 2 ^ 1024
    \<Longrightarrow> truediv (Finite x) (Finite y) = Inr (Finite (nearest (x / y)))"
  by (simp add: truediv_def ieee_finite)

lemma float_of_int_finite:
  "\<bar>nearest (of_int n)\<bar> < 2 ^ 1024 \<Longrightarrow> float_of_int n = Inr (Finite (nearest (of_int n)))"
  by (simp add: float_of_int_def ieee_finite)

lemma float_of_int_5: "float_of_int 5 = Inr (Finite 5)"
  using float_of_int_finite [of 5] by (simp add: nearest_5)

lemma truediv_int_5:
  "\<bar>nearest (x / 5)\<bar> < 2 ^ 1024 \<Longrightarrow> truediv_int (Finite x) 5 = Inr (Finite (nearest (x / 5)))"
  by (simp add: truediv_int_def float_of_int_5 truediv_finite)

lemma py_round_Finite: "py_round (Finite x) = Inr (round_half_even x)"
  by (simp add: py_round_def)

lemma getitem_Some: "map_of d k = Some v \<Longrightarrow> getitem d k = Inr v"
  by (simp add: getitem_def)

lemma interior_bounds:
  assumes "1 / 2 ^ 500 \<le> K" and "K \<le> 2 ^ 500"
  shows "K * (99 / 500) \<le> nearest (K / 5)" and "nearest (K / 5) \<le> K * (101 / 500)"
    and "\<bar>nearest (K / 5) * 5 - K\<bar> \<le> K / 2 ^ 53" and "\<bar>nearest (K / 5)\<bar> < 2 ^ 1024"
    and "0 < nearest (K / 5)"
proof -
  have "(0::real) < 1 / 2 ^ 500" by simp
  with assms have k: "0 < K" by linarith
  have "(1::real) / 2 ^ 1022 \<le> 1 / 2 ^ 500 / 5" by simp
  also have "\<dots> \<le> K / 5" using assms(1) by simp
  finally have n: "1 / 2 ^ 1022 \<le> K / 5" .
  note b = nearest_bounds [OF n]
  from b(2) show lo: "K * (99 / 500) \<le> nearest (K / 5)" by simp
  from b(3) show hi: "nearest (K / 5) \<le> K * (101 / 500)" by simp
  from quotient_error [of 5 "nearest (K / 5)" K] b(1)
  show "\<bar>nearest (K / 5) * 5 - K\<bar> \<le> K / 2 ^ 53" by simp
  from k have "0 < K * (99 / 500)" by simp
  with lo show pos: "0 < nearest (K / 5)" by (rule less_le_trans [rotated])
  have "K * (101 / 500) \<le> 2 ^ 500 * (101 / 500)" using assms(2) by simp
  also have "\<dots> < (2::real) ^ 1024" by simp
  finally show "\<bar>nearest (K / 5)\<bar> < 2 ^ 1024" using hi pos by simp
qed

lemma width_cells:
  assumes "1 / 2 ^ 500 \<le> K" and "K \<le> 2 ^ 500"
  shows "round_half_even (nearest (K / nearest (K / 5))) = 5"
    and "\<bar>nearest (K / nearest (K / 5))\<bar> < 2 ^ 1024"
proof -
  define i where "i = nearest (K / 5)"
  define q where "q = K / i"
  have "(0::real) < 1 / 2 ^ 500" by simp
  with assms have k: "0 < K" by linarith
  note ib = interior_bounds [OF assms, folded i_def]
  from ib(1) ib(5) k have q_hi: "q \<le> 500 / 99" by (simp add: q_def field_simps)
  from ib(2) ib(5) k have q_lo: "500 / 101 \<le> q" by (simp add: q_def field_simps)
  have "(1::real) / 2 ^ 1022 \<le> 500 / 101" by simp
  with q_lo have n: "1 / 2 ^ 1022 \<le> q" by linarith
  note b = nearest_bounds [OF n]
  from b(2) q_lo have lo: "9 / 2 < nearest q" by linarith
  from b(3) q_hi have hi: "nearest q < 11 / 2" by linarith
  from lo hi show "round_half_even (nearest (K / nearest (K / 5))) = 5"
    unfolding i_def [symmetric] q_def [symmetric] by (rule round_half_even_5)
  from lo hi show "\<bar>nearest (K / nearest (K / 5))\<bar> < 2 ^ 1024"
    unfolding i_def [symmetric] q_def [symmetric] by simp
qed

lemma width_axis:
  assumes Kr: "1 / 2 ^ 500 \<le> K" "K \<le> 2 ^ 500" and i: "i = nearest (K / 5)"
  shows "\<bar>nearest (i * 5) - K\<bar> \<le> K / 2 ^ 51"
proof -
  have "(0::real) < 1 / 2 ^ 500" by simp
  with Kr have k: "0 < K" by linarith
  note ib = interior_bounds [OF Kr, folded i]
  have "K / 2 ^ 53 \<le> K / 2" using k by (intro divide_left_mono) simp_all
  with ib(3) have "K / 2 \<le> i * 5" by linarith
  moreover have "1 / 2 ^ 500 / 2 \<le> K / 2" using Kr(1) by simp
  moreover have "(1::real) / 2 ^ 1022 \<le> 1 / 2 ^ 500 / 2" by simp
  ultimately have pn: "1 / 2 ^ 1022 \<le> i * 5" by linarith
  from two_roundings [OF k ib(3) nearest_bounds(1) [OF pn]] show ?thesis .
qed

lemma depth_axis:
  assumes Kr: "1 / 2 ^ 500 \<le> K" "K \<le> 2 ^ 500" and Wr: "1 / 2 ^ 500 \<le> W" "W \<le> 2 ^ 500"
    and i: "i = nearest (K / 5)"
    and n: "n = max 1 (round_half_even (nearest (W / i)))"
    and n': "n' = nearest (of_int n)"
    and d: "d = nearest (W / n')"
  shows "\<bar>nearest (W / i)\<bar> < 2 ^ 1024" and "1 \<le> n" and "0 < n'" and "\<bar>n'\<bar> < 2 ^ 1024"
    and "\<bar>d\<bar> < 2 ^ 1024" and "\<bar>nearest (d * n') - W\<bar> \<le> W / 2 ^ 51"
proof -
  define q where "q = W / i"
  define c where "c = nearest q"
  have "(0::real) < 1 / 2 ^ 500" by simp
  with Kr Wr have k: "0 < K" and w: "0 < W" by linarith+
  note ib = interior_bounds [OF Kr, folded i]
  have "1 / 2 ^ 500 * (99 / 500) \<le> K * (99 / 500)" using Kr(1) by (intro mult_right_mono) simp_all
  with ib(1) have i_lo: "99 / 500 / 2 ^ 500 \<le> i" by simp
  have "K * (101 / 500) \<le> 2 ^ 500 * (101 / 500)" using Kr(2) by (intro mult_right_mono) simp_all
  with ib(2) have i_hi: "i \<le> 2 ^ 500 * (101 / 500)" by simp
  have "q \<le> W / (99 / 500 / 2 ^ 500)"
    unfolding q_def using w i_lo by (intro divide_left_mono) (simp_all add: ib(5))
  then have q_rel: "q \<le> W * (2 ^ 500 * 500 / 99)" by simp
  also have "\<dots> \<le> 2 ^ 500 * (2 ^ 500 * 500 / 99)" using Wr(2) by (intro mult_right_mono) simp_all
  finally have q_hi: "q \<le> 2 ^ 500 * (2 ^ 500 * 500 / 99)" .
  have "1 / 2 ^ 500 / (2 ^ 500 * (101 / 500)) \<le> W / (2 ^ 500 * (101 / 500))"
    using Wr(1) by (intro divide_right_mono) simp_all
  also have "\<dots> \<le> q"
    unfolding q_def using w i_hi ib(5) by (intro divide_left_mono) simp_all
  finally have q_lo: "1 / 2 ^ 500 / (2 ^ 500 * (101 / 500)) \<le> q" .
  have "(1::real) / 2 ^ 1022 \<le> 1 / 2 ^ 500 / (2 ^ 500 * (101 / 500))" by simp
  with q_lo have qn: "1 / 2 ^ 1022 \<le> q" by linarith
  moreover have "(0::real) < 1 / 2 ^ 1022" by simp
  ultimately have q0: "0 < q" by (rule less_le_trans [rotated])
  note cb = nearest_bounds [OF qn, folded c_def]
  from q0 have "0 < q * (99 / 100)" by simp
  with cb(2) have c0: "0 < c" by linarith
  from q_rel have "q * (101 / 100) \<le> W * (2 ^ 500 * 500 / 99) * (101 / 100)"
    by (intro mult_right_mono) simp_all
  with cb(3) have c_rel: "c \<le> W * (2 ^ 500 * 500 / 99) * (101 / 100)" by (rule order_trans)
  from q_hi have "q * (101 / 100) \<le> 2 ^ 500 * (2 ^ 500 * 500 / 99) * (101 / 100)"
    by (intro mult_right_mono) simp_all
  with cb(3) have c_hi: "c \<le> 2 ^ 500 * (2 ^ 500 * 500 / 99) * (101 / 100)" by (rule order_trans)
  also have "\<dots> < (2::real) ^ 1024" by simp
  finally show "\<bar>nearest (W / i)\<bar> < 2 ^ 1024"
    using c0 by (simp add: c_def q_def)
  show n1: "1 \<le> n" by (simp add: n)
  have nc: "n = max 1 (round_half_even c)" by (simp add: n c_def q_def)
  have "real_of_int (round_half_even c) \<le> c + 1 / 2"
    using round_half_even_error [of c] by linarith
  with c0 have n_hi: "real_of_int n \<le> c + 1" by (simp add: nc max_def)
  from n1 have rn1: "1 \<le> real_of_int n" by simp
  have "(1::real) / 2 ^ 1022 \<le> 1" by simp
  with rn1 have nn: "1 / 2 ^ 1022 \<le> real_of_int n" by linarith
  note nb = nearest_bounds [OF nn, folded n']
  from nb(2) rn1 have n'_lo: "99 / 100 \<le> n'" by linarith
  then show n'0: "0 < n'" by linarith
  from n_hi have "real_of_int n * (101 / 100) \<le> (c + 1) * (101 / 100)"
    by (intro mult_right_mono) simp_all
  with nb(3) have n'_c: "n' \<le> (c + 1) * (101 / 100)" by (rule order_trans)
  from c_hi have "(c + 1) * (101 / 100)
      \<le> (2 ^ 500 * (2 ^ 500 * 500 / 99) * (101 / 100) + 1) * (101 / 100)"
    by (intro mult_right_mono add_right_mono) simp_all
  with n'_c have "n' \<le> (2 ^ 500 * (2 ^ 500 * 500 / 99) * (101 / 100) + 1) * (101 / 100)"
    by (rule order_trans)
  also have "\<dots> < (2::real) ^ 1024" by simp
  finally show "\<bar>n'\<bar> < 2 ^ 1024" using n'0 by simp
  have "1 \<le> W * 2 ^ 500" using Wr(1) by (simp add: field_simps)
  with c_rel have "(c + 1) * (101 / 100)
      \<le> (W * (2 ^ 500 * 500 / 99) * (101 / 100) + W * 2 ^ 500) * (101 / 100)"
    by (intro mult_right_mono add_mono) simp_all
  with n'_c have "n' \<le> (W * (2 ^ 500 * 500 / 99) * (101 / 100) + W * 2 ^ 500) * (101 / 100)"
    by (rule order_trans)
  also have "\<dots> = W * ((2 ^ 500 * 500 / 99 * (101 / 100) + 2 ^ 500) * (101 / 100))"
    by (simp add: algebra_simps)
  also have "\<dots> \<le> W * 2 ^ 1022" using w by (intro mult_left_mono) simp_all
  finally have "n' \<le> W * 2 ^ 1022" .
  with n'0 have xn: "1 / 2 ^ 1022 \<le> W / n'" by (simp add: field_simps)
  note db = nearest_bounds [OF xn, folded d]
  have "W / n' \<le> W / (99 / 100)" using w n'_lo by (intro divide_left_mono) simp_all
  also have "\<dots> \<le> 2 ^ 500 / (99 / 100)" using Wr(2) by (intro divide_right_mono) simp_all
  finally have x_hi: "W / n' \<le> 2 ^ 500 / (99 / 100)" .
  from w n'0 have x0: "0 < W / n'" by simp
  then have "0 < W / n' * (99 / 100)" by simp
  with db(2) have d0: "0 < d" by linarith
  from x_hi have "W / n' * (101 / 100) \<le> 2 ^ 500 / (99 / 100) * (101 / 100)"
    by (intro mult_right_mono) simp_all
  with db(3) have "d \<le> 2 ^ 500 / (99 / 100) * (101 / 100)" by (rule order_trans)
  also have "\<dots> < (2::real) ^ 1024" by simp
  finally show "\<bar>d\<bar> < 2 ^ 1024" using d0 by simp
  from quotient_error [OF n'0 db(1)] have e1: "\<bar>d * n' - W\<bar> \<le> W / 2 ^ 53" .
  have "W / 2 ^ 53 \<le> W / 2" using w by (intro divide_left_mono) simp_all
  with e1 have "W / 2 \<le> d * n'" by linarith
  moreover have "1 / 2 ^ 500 / 2 \<le> W / 2" using Wr(1) by simp
  moreover have "(1::real) / 2 ^ 1022 \<le> 1 / 2 ^ 500 / 2" by simp
  ultimately have pn: "1 / 2 ^ 1022 \<le> d * n'" by linarith
  from two_roundings [OF w e1 nearest_bounds(1) [OF pn]]
  show "\<bar>nearest (d * n') - W\<bar> \<le> W / 2 ^ 51" .
qed

lemma mesh_in_range:
  assumes K: "map_of c ''K_ch'' = Some K" and W: "map_of c ''W_ch'' = Some W"
    and Kr: "1 / 2 ^ 500 \<le> K" "K \<le> 2 ^ 500" and Wr: "1 / 2 ^ 500 \<le> W" "W \<le> 2 ^ 500"
    and i: "i = nearest (K / 5)"
    and n: "n = max 1 (round_half_even (nearest (W / i)))"
    and d: "d = nearest (W / nearest (of_int n))"
  shows "calculate_mesh_parameters c =
           Inr \<lparr>interior_mesh_size = Finite i, stream_width_mesh_size = Finite i,
                stream_width_cells = 5, stream_depth_mesh_size = Finite d,
                stream_depth_cells = n\<rparr>"
proof -
  note ib = interior_bounds [OF Kr, folded i]
  note wc = width_cells [OF Kr, folded i]
  note da = depth_axis [OF Kr Wr i n refl d]
  from ib(5) have i0: "i \<noteq> 0" by simp
  from da(3) have n0: "nearest (real_of_int n) \<noteq> 0" by simp
  have s1: "truediv_int (Finite K) 5 = Inr (Finite i)"
    using truediv_int_5 [OF ib(4) [unfolded i]] by (simp add: i)
  have s2: "truediv (Finite K) (Finite i) = Inr (Finite (nearest (K / i)))"
    using i0 wc(2) by (rule truediv_finite)
  have s3: "py_round (Finite (nearest (K / i))) = Inr 5"
    by (simp add: py_round_Finite wc(1))
  have s4: "truediv (Finite W) (Finite i) = Inr (Finite (nearest (W / i)))"
    using i0 da(1) by (rule truediv_finite)
  have s5: "max 1 (round_half_even (nearest (W / i))) = n" by (simp add: n)
  have s6: "truediv_int (Finite W) n = Inr (Finite d)"
    unfolding truediv_int_def float_of_int_finite [OF da(4)]
    using truediv_finite [OF n0 da(5) [unfolded d]] by (simp add: d)
  show ?thesis
    unfolding calculate_mesh_parameters_def getitem_Some [OF K] getitem_Some [OF W]
    by (simp add: s1 s2 py_round_Finite wc(1) s4 s5 s6)
qed

lemma cells_positive:
  "calculate_mesh_parameters c = Inr r \<Longrightarrow> 1 \<le> stream_width_cells r \<and> 1 \<le> stream_depth_cells r"
  by (auto simp: calculate_mesh_parameters_def split: sum.splits)

lemma mesh_product_5: "mesh_product i 5 = nearest (i * 5)"
  by (simp add: mesh_product_def nearest_5)

lemma tolerance_small:
  fixes D :: real
  assumes "0 \<le> D" and "D \<le> 10 ^ 6" and "\<bar>p - D\<bar> \<le> D / 2 ^ 51"
  shows "\<bar>p - D\<bar> \<le> 1 / 10 ^ 9"
proof -
  from assms(2) have "D / 2 ^ 51 \<le> 10 ^ 6 / 2 ^ 51" by (intro divide_right_mono) simp_all
  also have "\<dots> \<le> (1::real) / 10 ^ 9" by simp
  finally show ?thesis using assms(3) by linarith
qed

subsection \<open>Evaluation of the examples\<close>

lemma scenario_mesh:
  "calculate_mesh_parameters scenario_geometry =
     Inr \<lparr>interior_mesh_size = Finite (1 / 2), stream_width_mesh_size = Finite (1 / 2),
          stream_width_cells = 5, stream_depth_mesh_size = Finite (1 / 2),
          stream_depth_cells = 6\<rparr>"
proof -
  have i: "1 / 2 = nearest (5 / 2 / 5)" by (simp add: nearest_half)
  have n: "6 = max 1 (round_half_even (nearest (3 / (1 / 2))))"
    by (simp add: nearest_6 round_half_even_of_int [of 6, simplified])
  have d: "1 / 2 = nearest (3 / nearest (of_int 6))" by (simp add: nearest_6 nearest_half)
  show ?thesis
    by (rule mesh_in_range [where K = "5 / 2" and W = 3, OF _ _ _ _ _ _ i n d])
      (simp_all add: scenario_geometry_def)
qed

lemma nearest_273: "nearest (273 / 100) = 6147413491360727 / 2 ^ 51"
  by (subst nearest_eval [where e = 1]) (simp_all add: pow2_def round_half_even_def)

lemma nearest_273_fifth:
  "nearest (6147413491360727 / 2 ^ 51 / 5) = 2458965396544291 / 2 ^ 52"
  by (subst nearest_eval [where e = "- 1"]) (simp_all add: pow2_def round_half_even_def)

lemma nearest_273_cells:
  "nearest (6147413491360727 / 2 ^ 51 / (2458965396544291 / 2 ^ 52)) = 5"
  by (subst nearest_eval [where e = 2]) (simp_all add: pow2_def round_half_even_def)

lemma nearest_273_product:
  "nearest (2458965396544291 / 2 ^ 52 * 5) = 6147413491360728 / 2 ^ 51"
  by (subst nearest_eval [where e = 1]) (simp_all add: pow2_def round_half_even_def)

lemma inexact_mesh:
  "calculate_mesh_parameters inexact_geometry =
     Inr \<lparr>interior_mesh_size = Finite (2458965396544291 / 2 ^ 52),
          stream_width_mesh_size = Finite (2458965396544291 / 2 ^ 52),
          stream_width_cells = 5,
          stream_depth_mesh_size = Finite (2458965396544291 / 2 ^ 52),
          stream_depth_cells = 5\<rparr>"
proof -
  have i: "2458965396544291 / 2 ^ 52 = nearest (6147413491360727 / 2 ^ 51 / 5)"
    by (simp only: nearest_273_fifth)
  have n: "5 = max 1 (round_half_even
      (nearest (6147413491360727 / 2 ^ 51 / (2458965396544291 / 2 ^ 52))))"
    by (simp only: nearest_273_cells) (simp add: round_half_even_of_int [of 5, simplified])
  have d: "2458965396544291 / 2 ^ 52 = nearest (6147413491360727 / 2 ^ 51 / nearest (of_int 5))"
    using nearest_273_fifth by (simp add: nearest_5)
  show ?thesis
    unfolding inexact_geometry_def nearest_273
    by (rule mesh_in_range [where K = "6147413491360727 / 2 ^ 51"
          and W = "6147413491360727 / 2 ^ 51", OF _ _ _ _ _ _ i n d]) simp_all
qed

lemma nearest_large: "nearest (123456789 / 10) = 6628035890302157 / 2 ^ 29"
  by (subst nearest_eval [where e = 23]) (simp_all add: pow2_def round_half_even_def)

lemma nearest_large_fifth:
  "nearest (6628035890302157 / 2 ^ 29 / 5) = 2651214356120863 / 2 ^ 30"
  by (subst nearest_eval [where e = 21]) (simp_all add: pow2_def round_half_even_def)

lemma nearest_large_cells:
  "nearest (6628035890302157 / 2 ^ 29 / (2651214356120863 / 2 ^ 30)) = 5"
  by (subst nearest_eval [where e = 2]) (simp_all add: pow2_def round_half_even_def)

lemma nearest_large_product:
  "nearest (2651214356120863 / 2 ^ 30 * 5) = 3314017945151079 / 2 ^ 28"
  by (subst nearest_eval [where e = 23]) (simp_all add: pow2_def round_half_even_def)

lemma large_mesh:
  "calculate_mesh_parameters large_geometry =
     Inr \<lparr>interior_mesh_size = Finite (2651214356120863 / 2 ^ 30),
          stream_width_mesh_size = Finite (2651214356120863 / 2 ^ 30),
          stream_width_cells = 5,
          stream_depth_mesh_size = Finite (2651214356120863 / 2 ^ 30),
          stream_depth_cells = 5\<rparr>"
proof -
  have i: "2651214356120863 / 2 ^ 30 = nearest (6628035890302157 / 2 ^ 29 / 5)"
    by (simp only: nearest_large_fifth)
  have n: "5 = max 1 (round_half_even
      (nearest (6628035890302157 / 2 ^ 29 / (2651214356120863 / 2 ^ 30))))"
    by (simp only: nearest_large_cells) (simp add: round_half_even_of_int [of 5, simplified])
  have d: "2651214356120863 / 2 ^ 30 = nearest (6628035890302157 / 2 ^ 29 / nearest (of_int 5))"
    using nearest_large_fifth by (simp add: nearest_5)
  show ?thesis
    unfolding large_geometry_def nearest_large
    by (rule mesh_in_range [where K = "6628035890302157 / 2 ^ 29"
          and W = "6628035890302157 / 2 ^ 29", OF _ _ _ _ _ _ i n d]) simp_all
qed

lemma zero_width_fails:
  "calculate_mesh_parameters [(''K_ch'', 0), (''W_ch'', 3)] = Inl ZeroDivisionError"
proof -
  have "truediv_int (Finite 0) 5 = Inr (Finite 0)"
    by (simp add: truediv_int_def float_of_int_5 truediv_def ieee_def nearest_def)
  then show ?thesis
    by (simp add: calculate_mesh_parameters_def getitem_def truediv_def)
qed

lemma nearest_tiny: "nearest (1 / 2 ^ 1074 / 5) = 0"
proof -
  have e: "binary_exponent \<bar>1 / 2 ^ 1074 / 5 :: real\<bar> = - 1077"
    by (rule binary_exponent_unique) (simp_all add: pow2_def)
  have u: "ulp (1 / 2 ^ 1074 / 5) = 1 / 2 ^ 1074"
    unfolding ulp_def e by (simp add: pow2_def)
  show ?thesis
    unfolding nearest_def u by (simp add: round_half_even_def)
qed

lemma zero_interior_fails:
  assumes "map_of c ''K_ch'' = Some K" and "truediv_int (Finite K) 5 = Inr (Finite 0)"
  shows "calculate_mesh_parameters c = Inl ZeroDivisionError"
  by (simp add: calculate_mesh_parameters_def getitem_Some [OF assms(1)] assms(2) truediv_def)

lemma tiny_width_fails:
  "calculate_mesh_parameters [(''K_ch'', 1 / 2 ^ 1074), (''W_ch'', 1)] = Inl ZeroDivisionError"
proof -
  have i: "ieee (1 / 2 ^ 1074 / 5) = Finite 0"
    using ieee_finite [of "1 / 2 ^ 1074 / 5"] unfolding nearest_tiny by simp
  have t: "truediv (Finite (1 / 2 ^ 1074)) (Finite 5) = Inr (Finite 0)"
    unfolding truediv_def double.case i by simp
  have "truediv_int (Finite (1 / 2 ^ 1074)) 5 = Inr (Finite 0)"
    unfolding truediv_int_def float_of_int_5 sum.case by (rule t)
  then show ?thesis
    by (rule zero_interior_fails [rotated]) simp
qed

subsection \<open>Cell counts and mesh sizes\<close>

text \<open>
  C2 (amended). Whenever the calculator returns, both cell counts are at least 1. For
  finite \<open>K_ch\<close> and \<open>W_ch\<close> between \<open>2\<^sup>-\<^sup>5\<^sup>0\<^sup>0\<close> and \<open>2\<^sup>5\<^sup>0\<^sup>0\<close> it returns: the
  interior mesh size is \<open>K_ch / 5\<close> rounded to a double, the cell count of an axis is
  \<open>max(1, round(D / interior_mesh_size))\<close> (5 for the width), the mesh size is
  \<open>D / cells\<close> rounded to a double, and the product \<open>axis_mesh_size * actual_cells\<close>
  differs from \<open>D\<close> by at most \<open>D / 2\<^sup>5\<^sup>1\<close>, hence by at most \<open>10\<^sup>-\<^sup>9\<close> when
  \<open>D \<le> 10\<^sup>6\<close>; it need not equal \<open>D\<close>. In the scenario \<open>K_ch = 2.5\<close>,
  \<open>W_ch = 3.0\<close> the interior mesh size is 0.5, the depth has 6 cells and the mesh size
  0.5.
\<close>

theorem mesh_cells_and_tolerance:
  "(calculate_mesh_parameters c = Inr r \<longrightarrow>
      1 \<le> stream_width_cells r \<and> 1 \<le> stream_depth_cells r)
   \<and> (map_of c ''K_ch'' = Some K \<and> map_of c ''W_ch'' = Some W
        \<and> 1 / 2 ^ 500 \<le> K \<and> K \<le> 2 ^ 500 \<and> 1 / 2 ^ 500 \<le> W \<and> W \<le> 2 ^ 500 \<longrightarrow>
      (\<exists>i n d.
         calculate_mesh_parameters c =
           Inr \<lparr>interior_mesh_size = Finite i, stream_width_mesh_size = Finite i,
                stream_width_cells = 5, stream_depth_mesh_size = Finite d,
                stream_depth_cells = n\<rparr>
         \<and> i = nearest (K / 5)
         \<and> max 1 (round_half_even (nearest (K / i))) = 5
         \<and> n = max 1 (round_half_even (nearest (W / i))) \<and> 1 \<le> n
         \<and> d = nearest (W / nearest (of_int n))
         \<and> \<bar>mesh_product i 5 - K\<bar> \<le> K / 2 ^ 51
         \<and> \<bar>mesh_product d n - W\<bar> \<le> W / 2 ^ 51
         \<and> (K \<le> 10 ^ 6 \<longrightarrow> \<bar>mesh_product i 5 - K\<bar> \<le> 1 / 10 ^ 9)
         \<and> (W \<le> 10 ^ 6 \<longrightarrow> \<bar>mesh_product d n - W\<bar> \<le> 1 / 10 ^ 9)))
   \<and> calculate_mesh_parameters scenario_geometry =
       Inr \<lparr>interior_mesh_size = Finite (1 / 2), stream_width_mesh_size = Finite (1 / 2),
            stream_width_cells = 5, stream_depth_mesh_size = Finite (1 / 2),
            stream_depth_cells = 6\<rparr>"
proof (intro conjI impI)
  assume "calculate_mesh_parameters c = Inr r"
  then show "1 \<le> stream_width_cells r" "1 \<le> stream_depth_cells r"
    using cells_positive by blast+
next
  assume a: "map_of c ''K_ch'' = Some K \<and> map_of c ''W_ch'' = Some W
        \<and> 1 / 2 ^ 500 \<le> K \<and> K \<le> 2 ^ 500 \<and> 1 / 2 ^ 500 \<le> W \<and> W \<le> 2 ^ 500"
  then have K: "map_of c ''K_ch'' = Some K" and W: "map_of c ''W_ch'' = Some W"
    and Kr: "1 / 2 ^ 500 \<le> K" "K \<le> 2 ^ 500" and Wr: "1 / 2 ^ 500 \<le> W" "W \<le> 2 ^ 500"
    by simp_all
  define i where "i = nearest (K / 5)"
  define n where "n = max 1 (round_half_even (nearest (W / i)))"
  define d where "d = nearest (W / nearest (of_int n))"
  have "(0::real) < 1 / 2 ^ 500" by simp
  with Kr Wr have k: "0 \<le> K" and w: "0 \<le> W" by linarith+
  note m = mesh_in_range [OF K W Kr Wr i_def n_def d_def]
  note wc = width_cells [OF Kr, folded i_def]
  note da = depth_axis [OF Kr Wr i_def n_def refl d_def]
  have pw: "\<bar>mesh_product i 5 - K\<bar> \<le> K / 2 ^ 51"
    unfolding mesh_product_5 by (rule width_axis [OF Kr i_def])
  have pd: "\<bar>mesh_product d n - W\<bar> \<le> W / 2 ^ 51"
    unfolding mesh_product_def by (rule da(6))
  have c5: "max 1 (round_half_even (nearest (K / i))) = 5" by (simp add: wc(1))
  have tw: "K \<le> 10 ^ 6 \<longrightarrow> \<bar>mesh_product i 5 - K\<bar> \<le> 1 / 10 ^ 9"
    using tolerance_small [OF k _ pw] by blast
  have td: "W \<le> 10 ^ 6 \<longrightarrow> \<bar>mesh_product d n - W\<bar> \<le> 1 / 10 ^ 9"
    using tolerance_small [OF w _ pd] by blast
  from m i_def c5 n_def da(2) d_def pw pd tw td
  show "\<exists>i n d.
         calculate_mesh_parameters c =
           Inr \<lparr>interior_mesh_size = Finite i, stream_width_mesh_size = Finite i,
                stream_width_cells = 5, stream_depth_mesh_size = Finite d,
                stream_depth_cells = n\<rparr>
         \<and> i = nearest (K / 5)
         \<and> max 1 (round_half_even (nearest (K / i))) = 5
         \<and> n = max 1 (round_half_even (nearest (W / i))) \<and> 1 \<le> n
         \<and> d = nearest (W / nearest (of_int n))
         \<and> \<bar>mesh_product i 5 - K\<bar> \<le> K / 2 ^ 51
         \<and> \<bar>mesh_product d n - W\<bar> \<le> W / 2 ^ 51
         \<and> (K \<le> 10 ^ 6 \<longrightarrow> \<bar>mesh_product i 5 - K\<bar> \<le> 1 / 10 ^ 9)
         \<and> (W \<le> 10 ^ 6 \<longrightarrow> \<bar>mesh_product d n - W\<bar> \<le> 1 / 10 ^ 9)"
    by blast
next
  show "calculate_mesh_parameters scenario_geometry =
       Inr \<lparr>interior_mesh_size = Finite (1 / 2), stream_width_mesh_size = Finite (1 / 2),
            stream_width_cells = 5, stream_depth_mesh_size = Finite (1 / 2),
            stream_depth_cells = 6\<rparr>"
    by (rule scenario_mesh)
qed

text \<open>
  The scenario geometry lies in the range: the calculator returns the values above, both
  cell counts are at least 1, and the products of both axes are within \<open>10\<^sup>-\<^sup>9\<close> of
  the dimensions.
\<close>

theorem mesh_cells_and_tolerance_witness:
  "map_of scenario_geometry ''K_ch'' = Some (5 / 2) \<and> map_of scenario_geometry ''W_ch'' = Some 3
   \<and> (1::real) / 2 ^ 500 \<le> 5 / 2 \<and> (5::real) / 2 \<le> 2 ^ 500
   \<and> (1::real) / 2 ^ 500 \<le> 3 \<and> (3::real) \<le> 2 ^ 500
   \<and> (5::real) / 2 \<le> 10 ^ 6 \<and> (3::real) \<le> 10 ^ 6
   \<and> calculate_mesh_parameters scenario_geometry =
       Inr \<lparr>interior_mesh_size = Finite (1 / 2), stream_width_mesh_size = Finite (1 / 2),
            stream_width_cells = 5, stream_depth_mesh_size = Finite (1 / 2),
            stream_depth_cells = 6\<rparr>
   \<and> 1 \<le> stream_width_cells
         \<lparr>interior_mesh_size = Finite (1 / 2), stream_width_mesh_size = Finite (1 / 2),
          stream_width_cells = 5, stream_depth_mesh_size = Finite (1 / 2),
          stream_depth_cells = 6\<rparr>
   \<and> 1 \<le> stream_depth_cells
         \<lparr>interior_mesh_size = Finite (1 / 2), stream_width_mesh_size = Finite (1 / 2),
          stream_width_cells = 5, stream_depth_mesh_size = Finite (1 / 2),
          stream_depth_cells = 6\<rparr>
   \<and> \<bar>mesh_product (1 / 2) 5 - 5 / 2\<bar> \<le> 1 / 10 ^ 9
   \<and> \<bar>mesh_product (1 / 2) 6 - 3\<bar> \<le> 1 / 10 ^ 9"
proof -
  let ?r = "\<lparr>interior_mesh_size = Finite (1 / 2), stream_width_mesh_size = Finite (1 / 2),
            stream_width_cells = 5, stream_depth_mesh_size = Finite (1 / 2),
            stream_depth_cells = 6\<rparr>"
  have h: "map_of scenario_geometry ''K_ch'' = Some (5 / 2)"
    "map_of scenario_geometry ''W_ch'' = Some 3"
    by (simp_all add: scenario_geometry_def)
  have r: "(1::real) / 2 ^ 500 \<le> 5 / 2" "(5::real) / 2 \<le> 2 ^ 500"
    "(1::real) / 2 ^ 500 \<le> 3" "(3::real) \<le> 2 ^ 500"
    "(5::real) / 2 \<le> 10 ^ 6" "(3::real) \<le> 10 ^ 6"
    by simp_all
  note t = mesh_cells_and_tolerance [of scenario_geometry ?r "5 / 2" 3]
  from t have s: "calculate_mesh_parameters scenario_geometry = Inr ?r"
    by blast
  with t have c: "1 \<le> stream_width_cells ?r" "1 \<le> stream_depth_cells ?r"
    by blast+
  from t h r obtain i n d where
    "calculate_mesh_parameters scenario_geometry =
           Inr \<lparr>interior_mesh_size = Finite i, stream_width_mesh_size = Finite i,
                stream_width_cells = 5, stream_depth_mesh_size = Finite d,
                stream_depth_cells = n\<rparr>"
    and pw: "\<bar>mesh_product i 5 - 5 / 2\<bar> \<le> 1 / 10 ^ 9"
    and pd: "\<bar>mesh_product d n - 3\<bar> \<le> 1 / 10 ^ 9"
    by blast
  with s have dn: "i = 1 / 2" "d = 1 / 2" "n = 6" by simp_all
  from pw have w: "\<bar>mesh_product (1 / 2) 5 - 5 / 2\<bar> \<le> 1 / 10 ^ 9" unfolding dn .
  from pd have d: "\<bar>mesh_product (1 / 2) 6 - 3\<bar> \<le> 1 / 10 ^ 9" unfolding dn .
  from h r s c w d show ?thesis by blast
qed

text \<open>
  For \<open>K_ch = 2.73\<close> the width has 5 cells of size \<open>2.73 / 5\<close> rounded, and the
  product is the next double above 2.73, not 2.73. For \<open>K_ch = 12345678.9\<close> the
  product differs from \<open>K_ch\<close> by \<open>2\<^sup>-\<^sup>2\<^sup>9\<close>, more than \<open>10\<^sup>-\<^sup>9\<close>. For the smallest
  positive double as \<open>K_ch\<close> the interior mesh size is zero and the calculator raises
  \<open>ZeroDivisionError\<close>.
\<close>

theorem inexact_product_counterexample:
  "calculate_mesh_parameters inexact_geometry =
     Inr \<lparr>interior_mesh_size = Finite (2458965396544291 / 2 ^ 52),
          stream_width_mesh_size = Finite (2458965396544291 / 2 ^ 52),
          stream_width_cells = 5,
          stream_depth_mesh_size = Finite (2458965396544291 / 2 ^ 52),
          stream_depth_cells = 5\<rparr>
   \<and> map_of inexact_geometry ''K_ch'' = Some (6147413491360727 / 2 ^ 51)
   \<and> mesh_product (2458965396544291 / 2 ^ 52) 5 = 6147413491360728 / 2 ^ 51
   \<and> mesh_product (2458965396544291 / 2 ^ 52) 5 \<noteq> 6147413491360727 / 2 ^ 51
   \<and> calculate_mesh_parameters large_geometry =
     Inr \<lparr>interior_mesh_size = Finite (2651214356120863 / 2 ^ 30),
          stream_width_mesh_size = Finite (2651214356120863 / 2 ^ 30),
          stream_width_cells = 5,
          stream_depth_mesh_size = Finite (2651214356120863 / 2 ^ 30),
          stream_depth_cells = 5\<rparr>
   \<and> map_of large_geometry ''K_ch'' = Some (6628035890302157 / 2 ^ 29)
   \<and> mesh_product (2651214356120863 / 2 ^ 30) 5 - 6628035890302157 / 2 ^ 29 = 1 / 2 ^ 29
   \<and> (1::real) / 2 ^ 29 > 1 / 10 ^ 9
   \<and> calculate_mesh_parameters [(''K_ch'', 1 / 2 ^ 1074), (''W_ch'', 1)]
       = Inl ZeroDivisionError"
proof -
  have a: "map_of inexact_geometry ''K_ch'' = Some (6147413491360727 / 2 ^ 51)"
    by (simp add: inexact_geometry_def nearest_273)
  have b: "mesh_product (2458965396544291 / 2 ^ 52) 5 = 6147413491360728 / 2 ^ 51"
    unfolding mesh_product_5 by (rule nearest_273_product)
  have c: "mesh_product (2458965396544291 / 2 ^ 52) 5 \<noteq> 6147413491360727 / 2 ^ 51"
    unfolding b by simp
  have d: "map_of large_geometry ''K_ch'' = Some (6628035890302157 / 2 ^ 29)"
    by (simp add: large_geometry_def nearest_large)
  have e: "mesh_product (2651214356120863 / 2 ^ 30) 5 - 6628035890302157 / 2 ^ 29 = 1 / 2 ^ 29"
    unfolding mesh_product_5 nearest_large_product by simp
  have f: "(1::real) / 2 ^ 29 > 1 / 10 ^ 9" by simp
  from inexact_mesh a b c large_mesh d e f tiny_width_fails show ?thesis by blast
qed

section \<open>Properties of the Filter/Sampler\<close>

subsection \<open>The random source and the shuffle\<close>

lemma valid_rng_random: "valid_rng g \<Longrightarrow> 0 \<le> fst (random g) \<and> fst (random g) < 1 \<and> valid_rng (snd (random g))"
  by (simp add: valid_rng_def random_def)

lemma randbelow_less:
  assumes "valid_rng g" and "0 < n"
  shows "fst (randbelow n g) < n \<and> valid_rng (snd (randbelow n g))"
proof -
  let ?u = "fst (random g)"
  from valid_rng_random [OF assms(1)] have u: "0 \<le> ?u" "?u < 1" and v: "valid_rng (snd (random g))"
    by simp_all
  from u assms(2) have "?u * real n < real n" by simp
  then have "\<lfloor>?u * real n\<rfloor> < int n" by (simp add: floor_less_iff)
  moreover from u have "0 \<le> \<lfloor>?u * real n\<rfloor>" by simp
  ultimately have "nat \<lfloor>?u * real n\<rfloor> < n" by linarith
  with v show ?thesis by (simp add: randbelow_def case_prod_unfold)
qed

lemma length_shuffle_loop: "length (fst (shuffle_loop i x g)) = length x"
  by (induction i arbitrary: x g) (simp_all split: prod.splits)

lemma mset_shuffle_loop:
  "valid_rng g \<Longrightarrow> i < length x \<Longrightarrow> mset (fst (shuffle_loop i x g)) = mset x"
proof (induction i arbitrary: x g)
  case 0
  show ?case by simp
next
  case (Suc i)
  obtain j g' where r: "randbelow (Suc (Suc i)) g = (j, g')" by (cases "randbelow (Suc (Suc i)) g")
  with randbelow_less [OF Suc.prems(1), of "Suc (Suc i)"] have j: "j < Suc (Suc i)" and v: "valid_rng g'"
    by simp_all
  let ?x = "x[Suc i := x ! j, j := x ! Suc i]"
  from j Suc.prems(2) have "mset ?x = mset x" by (simp add: mset_swap)
  moreover have "mset (fst (shuffle_loop i ?x g')) = mset ?x"
    using Suc.prems(2) by (intro Suc.IH [OF v]) simp
  ultimately show ?case using r by simp
qed

lemma length_shuffle: "length (fst (shuffle x g)) = length x"
  by (simp add: shuffle_def length_shuffle_loop)

lemma mset_shuffle: "valid_rng g \<Longrightarrow> mset (fst (shuffle x g)) = mset x"
  by (cases x) (simp_all add: shuffle_def mset_shuffle_loop)

lemma valid_zero_rng: "valid_rng zero_rng"
  by (simp add: valid_rng_def zero_rng_def)

lemma skip_0: "skip 0 g = g"
  by (simp add: skip_def)

lemma skip_Suc: "skip k (snd (random g)) = skip (Suc k) g"
  by (simp add: skip_def random_def)

lemma valid_skip: "valid_rng g \<Longrightarrow> valid_rng (skip k g)"
  by (simp add: valid_rng_def skip_def)

subsection \<open>The thinning loop\<close>

lemma exclusion_test_cases:
  obtains (fails) e where "exclusion_test c = Inl e"
    | (matches) "exclusion_test c = Inr True"
    | (passes) "exclusion_test c = Inr False"
  by (cases "exclusion_test c") auto

lemma exclusion_test_present:
  assumes "map_of c ''K_ch'' = Some k" "map_of c ''W_ch'' = Some w" "map_of c ''W_rib'' = Some r"
  shows "exclusion_test c = Inr (k > 2.4 \<and> w > 2.4 \<and> r > 9)"
  using assms by (simp add: exclusion_test_def getitem_def)

lemma filter_loop_rate_0:
  assumes "valid_rng g" and "list_all (\<lambda>c. \<not> test_fails c) cs"
  shows "filter_loop 0 cs acc n g = Inr (acc @ cs, n, skip (length (filter matches cs)) g)"
  using assms
proof (induction cs arbitrary: acc n g)
  case Nil
  show ?case by (simp add: skip_0)
next
  case (Cons c cs)
  from Cons.prems(1) have u: "\<not> fst (random g) < 0" and v: "valid_rng (snd (random g))"
    using valid_rng_random [of g] by simp_all
  from Cons.prems(2) have rest: "list_all (\<lambda>c. \<not> test_fails c) cs" by simp
  show ?case
  proof (cases c rule: exclusion_test_cases)
    case (fails e)
    with Cons.prems(2) show ?thesis by (simp add: test_fails_def)
  next
    case matches
    then show ?thesis
      using u Cons.IH [OF v rest]
      by (simp add: matches_def case_prod_unfold skip_Suc)
  next
    case passes
    then show ?thesis
      using Cons.IH [OF Cons.prems(1) rest] by (simp add: matches_def)
  qed
qed

lemma filter_loop_rate_1:
  assumes "valid_rng g" and "list_all (\<lambda>c. \<not> test_fails c) cs"
  shows "filter_loop 1 cs acc n g
         = Inr (acc @ filter (\<lambda>c. \<not> matches c) cs, n + length (filter matches cs),
                skip (length (filter matches cs)) g)"
  using assms
proof (induction cs arbitrary: acc n g)
  case Nil
  show ?case by (simp add: skip_0)
next
  case (Cons c cs)
  from Cons.prems(1) have u: "fst (random g) < 1" and v: "valid_rng (snd (random g))"
    using valid_rng_random [of g] by simp_all
  from Cons.prems(2) have rest: "list_all (\<lambda>c. \<not> test_fails c) cs" by simp
  show ?case
  proof (cases c rule: exclusion_test_cases)
    case (fails e)
    with Cons.prems(2) show ?thesis by (simp add: test_fails_def)
  next
    case matches
    then show ?thesis
      using u Cons.IH [OF v rest]
      by (simp add: matches_def case_prod_unfold skip_Suc)
  next
    case passes
    then show ?thesis
      using Cons.IH [OF Cons.prems(1) rest] by (simp add: matches_def)
  qed
qed

lemma filter_loop_any_rate:
  assumes "list_all (\<lambda>c. \<not> test_fails c) cs"
  shows "\<exists>kept n' g'. filter_loop rate cs acc n g = Inr (acc @ kept, n', g')
           \<and> subseq kept cs
           \<and> filter (\<lambda>c. \<not> matches c) kept = filter (\<lambda>c. \<not> matches c) cs"
  using assms
proof (induction cs arbitrary: acc n g)
  case Nil
  show ?case by simp
next
  case (Cons c cs)
  from Cons.prems have rest: "list_all (\<lambda>c. \<not> test_fails c) cs" by simp
  show ?case
  proof (cases c rule: exclusion_test_cases)
    case (fails e)
    with Cons.prems show ?thesis by (simp add: test_fails_def)
  next
    case matches
    show ?thesis
    proof (cases "fst (random g) < rate")
      case True
      from Cons.IH [OF rest, of acc "n + 1" "snd (random g)"]
      obtain kept n' g' where
        "filter_loop rate cs acc (n + 1) (snd (random g)) = Inr (acc @ kept, n', g')"
        "subseq kept cs" "filter (\<lambda>c. \<not> matches c) kept = filter (\<lambda>c. \<not> matches c) cs"
        by blast
      with matches True show ?thesis
        by (intro exI [of _ kept]) (auto simp: matches_def case_prod_unfold)
    next
      case False
      from Cons.IH [OF rest, of "acc @ [c]" n "snd (random g)"]
      obtain kept n' g' where
        "filter_loop rate cs (acc @ [c]) n (snd (random g)) = Inr ((acc @ [c]) @ kept, n', g')"
        "subseq kept cs" "filter (\<lambda>c. \<not> matches c) kept = filter (\<lambda>c. \<not> matches c) cs"
        by blast
      with matches False show ?thesis
        by (intro exI [of _ "c # kept"]) (auto simp: matches_def case_prod_unfold)
    qed
  next
    case passes
    from Cons.IH [OF rest, of "acc @ [c]" n g]
    obtain kept n' g' where
      "filter_loop rate cs (acc @ [c]) n g = Inr ((acc @ [c]) @ kept, n', g')"
      "subseq kept cs" "filter (\<lambda>c. \<not> matches c) kept = filter (\<lambda>c. \<not> matches c) cs"
      by blast
    with passes show ?thesis
      by (intro exI [of _ "c # kept"]) (auto simp: matches_def)
  qed
qed

lemma filter_loop_fails:
  assumes "\<not> list_all (\<lambda>c. \<not> test_fails c) cs"
  shows "isl (filter_loop rate cs acc n g)"
  using assms
proof (induction cs arbitrary: acc n g)
  case Nil
  then show ?case by simp
next
  case (Cons c cs)
  show ?case
  proof (cases c rule: exclusion_test_cases)
    case (fails e)
    then show ?thesis by simp
  next
    case matches
    with Cons.prems have "\<not> list_all (\<lambda>c. \<not> test_fails c) cs" by (simp add: test_fails_def)
    from Cons.IH [OF this] matches show ?thesis by (simp add: case_prod_unfold)
  next
    case passes
    with Cons.prems have "\<not> list_all (\<lambda>c. \<not> test_fails c) cs" by (simp add: test_fails_def)
    from Cons.IH [OF this] passes show ?thesis by simp
  qed
qed

lemma apply_filtering_rate_0:
  assumes "valid_rng g" and "list_all (\<lambda>c. \<not> test_fails c) cs" and "sample_rate fc = Some 0"
  shows "apply_filtering cs fc g = Inr (cs, skip (length (filter matches cs)) g)"
  using filter_loop_rate_0 [OF assms(1,2), of "[]" 0] assms(3)
  by (simp add: apply_filtering_def)

lemma apply_filtering_rate_1:
  assumes "valid_rng g" and "list_all (\<lambda>c. \<not> test_fails c) cs" and "sample_rate fc = Some 1"
  shows "apply_filtering cs fc g
         = Inr (filter (\<lambda>c. \<not> matches c) cs, skip (length (filter matches cs)) g)"
  using filter_loop_rate_1 [OF assms(1,2), of "[]" 0] assms(3)
  by (simp add: apply_filtering_def)

lemma apply_filtering_any_rate:
  assumes "list_all (\<lambda>c. \<not> test_fails c) cs"
  shows "\<exists>kept g'. apply_filtering cs fc g = Inr (kept, g') \<and> subseq kept cs
           \<and> filter (\<lambda>c. \<not> matches c) kept = filter (\<lambda>c. \<not> matches c) cs"
proof -
  obtain kept n' g' where
    "filter_loop (case sample_rate fc of None \<Rightarrow> 0.5 | Some r \<Rightarrow> r) cs [] 0 g = Inr ([] @ kept, n', g')"
    "subseq kept cs" "filter (\<lambda>c. \<not> matches c) kept = filter (\<lambda>c. \<not> matches c) cs"
    using filter_loop_any_rate [OF assms] by blast
  then show ?thesis by (auto simp: apply_filtering_def)
qed

lemma apply_filtering_fails:
  assumes "c \<in> set cs" and "test_fails c"
  shows "isl (apply_filtering cs fc g)"
proof -
  from assms have "\<not> list_all (\<lambda>c. \<not> test_fails c) cs" by (auto simp: list_all_iff)
  from filter_loop_fails [OF this]
  have "isl (filter_loop (case sample_rate fc of None \<Rightarrow> 0.5 | Some r \<Rightarrow> r) cs [] 0 g)" .
  then show ?thesis
    by (cases "filter_loop (case sample_rate fc of None \<Rightarrow> 0.5 | Some r \<Rightarrow> r) cs [] 0 g")
      (simp_all add: apply_filtering_def)
qed

subsection \<open>The scenario\<close>

lemma scenario_combos:
  "all_combinations scenario_space =
     [[(''K_ch'', 1), (''W_ch'', 1), (''W_rib'', 5)], [(''K_ch'', 1), (''W_ch'', 1), (''W_rib'', 10)],
      [(''K_ch'', 1), (''W_ch'', 3), (''W_rib'', 5)], [(''K_ch'', 1), (''W_ch'', 3), (''W_rib'', 10)],
      [(''K_ch'', 3), (''W_ch'', 1), (''W_rib'', 5)], [(''K_ch'', 3), (''W_ch'', 1), (''W_rib'', 10)],
      [(''K_ch'', 3), (''W_ch'', 3), (''W_rib'', 5)], [(''K_ch'', 3), (''W_ch'', 3), (''W_rib'', 10)]]"
  by (simp add: all_combinations_def scenario_space_def)

lemma scenario_tests:
  "list_all (\<lambda>c. \<not> test_fails c) (all_combinations scenario_space)"
  "filter (\<lambda>c. \<not> matches c) (all_combinations scenario_space) = scenario_retained"
  "filter matches (all_combinations scenario_space) = [[(''K_ch'', 3), (''W_ch'', 3), (''W_rib'', 10)]]"
  by (simp_all add: scenario_combos test_fails_def matches_def exclusion_test_present
      scenario_retained_def)

lemma scenario_result:
  assumes "valid_rng g"
  shows "generate_parameter_combinations scenario_config g = Inr (scenario_retained, skip 1 g)"
proof -
  have "apply_filtering (all_combinations scenario_space)
          \<lparr>exclude_condition = None, sample_rate = Some 1, target_count = Some 100, other_keys = []\<rparr> g
        = Inr (scenario_retained, skip 1 g)"
    using apply_filtering_rate_1 [OF assms scenario_tests(1)] by (simp add: scenario_tests)
  then show ?thesis
    by (simp add: generate_parameter_combinations_def scenario_config_def truthy_def
        sample_to_target_def scenario_retained_def)
qed

lemma negative_target_run:
  "generate_parameter_combinations negative_target_config zero_rng
   = Inr (sample_to_target scenario_retained (- 1) zero_rng)"
proof -
  have "apply_filtering (all_combinations scenario_space)
          \<lparr>exclude_condition = None, sample_rate = Some 1, target_count = Some (- 1), other_keys = []\<rparr>
          zero_rng
        = Inr (scenario_retained, zero_rng)"
    using apply_filtering_rate_1 [OF valid_zero_rng scenario_tests(1)]
    by (simp add: scenario_tests skip_def zero_rng_def)
  then show ?thesis
    by (simp add: generate_parameter_combinations_def negative_target_config_def truthy_def)
qed

lemma shuffle_zero_7:
  "shuffle [a, b, c, d, e, f, h] zero_rng = ([b, c, d, e, f, h, a], zero_rng)"
  by (simp add: shuffle_def randbelow_def random_def zero_rng_def eval_nat_numeral)

subsection \<open>The cap on the population\<close>

text \<open>
  C3 (amended). For every retained list, every non-negative \<open>target_count\<close> and every
  outcome of the random source, the sampling step returns at most \<open>target_count\<close>
  combinations: when the retained list is longer than \<open>target_count\<close> the result is
  the first \<open>target_count\<close> elements of a permutation of it, exactly \<open>target_count\<close>
  many; otherwise the retained list is returned unchanged.
\<close>

theorem sample_to_target_cap:
  assumes "0 \<le> target" and "valid_rng g"
  shows "int (length (fst (sample_to_target retained target g))) \<le> target
    \<and> (int (length retained) > target \<longrightarrow>
          fst (sample_to_target retained target g) = take (nat target) (fst (shuffle retained g))
          \<and> mset (fst (shuffle retained g)) = mset retained
          \<and> int (length (fst (sample_to_target retained target g))) = target)
    \<and> (int (length retained) \<le> target \<longrightarrow> fst (sample_to_target retained target g) = retained)"
  using assms
  by (auto simp: sample_to_target_def slice_to_def length_shuffle mset_shuffle case_prod_unfold)

theorem sample_to_target_cap_witness:
  "(0::int) \<le> 2 \<and> valid_rng zero_rng
   \<and> length (fst (sample_to_target [1, 2, 3 :: nat] 2 zero_rng)) = 2"
proof -
  have h: "(0::int) \<le> 2" by simp
  from sample_to_target_cap [OF h valid_zero_rng, of "[1, 2, 3 :: nat]"]
  have "int (length [1, 2, 3 :: nat]) > 2 \<longrightarrow>
        int (length (fst (sample_to_target [1, 2, 3 :: nat] 2 zero_rng))) = 2"
    by blast
  then have "length (fst (sample_to_target [1, 2, 3 :: nat] 2 zero_rng)) = 2"
    by simp
  with valid_zero_rng show ?thesis by simp
qed

text \<open>
  With \<open>target_count = -1\<close> the slice \<open>[:target_count]\<close> drops the last element only:
  of the seven retained combinations of the scenario six are returned, more than the
  target.
\<close>

theorem negative_target_counterexample:
  "generate_parameter_combinations negative_target_config zero_rng
   = Inr ([[(''K_ch'', 1), (''W_ch'', 1), (''W_rib'', 10)],
      [(''K_ch'', 1), (''W_ch'', 3), (''W_rib'', 5)], [(''K_ch'', 1), (''W_ch'', 3), (''W_rib'', 10)],
      [(''K_ch'', 3), (''W_ch'', 1), (''W_rib'', 5)], [(''K_ch'', 3), (''W_ch'', 1), (''W_rib'', 10)],
      [(''K_ch'', 3), (''W_ch'', 3), (''W_rib'', 5)]], zero_rng)
   \<and> target_count (the (batch_filtering negative_target_config)) = Some (- 1)"
  unfolding negative_target_run
  by (simp add: sample_to_target_def scenario_retained_def shuffle_zero_7 slice_to_def
      negative_target_config_def)

subsection \<open>Thinning\<close>

text \<open>
  C4. Let every combination have the keys the test looks up, and let the random source hand
  out variates in \<open>[0, 1)\<close>. Then filtering returns a subsequence of its input that
  keeps every combination not matching the predicate; with \<open>sample_rate = 0\<close> it
  returns its input unchanged; with \<open>sample_rate = 1\<close> it returns exactly the
  combinations not matching. In the scenario the result is the seven combinations other
  than \<open>(3, 3, 10)\<close>, in their order, whatever the random source.
\<close>

theorem thinning_by_rate:
  assumes "valid_rng g" and "list_all (\<lambda>c. \<not> test_fails c) combos"
  shows "(\<exists>kept g'. apply_filtering combos fc g = Inr (kept, g') \<and> subseq kept combos
            \<and> filter (\<lambda>c. \<not> matches c) kept = filter (\<lambda>c. \<not> matches c) combos)
    \<and> (sample_rate fc = Some 0 \<longrightarrow>
          apply_filtering combos fc g = Inr (combos, skip (length (filter matches combos)) g))
    \<and> (sample_rate fc = Some 1 \<longrightarrow>
          apply_filtering combos fc g
          = Inr (filter (\<lambda>c. \<not> matches c) combos, skip (length (filter matches combos)) g))
    \<and> generate_parameter_combinations scenario_config g = Inr (scenario_retained, skip 1 g)"
  using apply_filtering_any_rate [OF assms(2)] apply_filtering_rate_0 [OF assms]
    apply_filtering_rate_1 [OF assms] scenario_result [OF assms(1)]
  by blast

theorem thinning_by_rate_witness:
  "valid_rng zero_rng \<and> list_all (\<lambda>c. \<not> test_fails c) (all_combinations scenario_space)
   \<and> apply_filtering (all_combinations scenario_space)
        \<lparr>exclude_condition = None, sample_rate = Some 0, target_count = None, other_keys = []\<rparr>
        zero_rng
      = Inr (all_combinations scenario_space, zero_rng)
   \<and> apply_filtering (all_combinations scenario_space)
        \<lparr>exclude_condition = None, sample_rate = Some 1, target_count = None, other_keys = []\<rparr>
        zero_rng
      = Inr (scenario_retained, zero_rng)
   \<and> generate_parameter_combinations scenario_config zero_rng = Inr (scenario_retained, zero_rng)"
proof -
  have s: "skip k zero_rng = zero_rng" for k
    by (simp add: skip_def zero_rng_def)
  note t = thinning_by_rate [OF valid_zero_rng scenario_tests(1)]
  from t [of "\<lparr>exclude_condition = None, sample_rate = Some 0, target_count = None, other_keys = []\<rparr>"]
  have a: "apply_filtering (all_combinations scenario_space)
        \<lparr>exclude_condition = None, sample_rate = Some 0, target_count = None, other_keys = []\<rparr>
        zero_rng = Inr (all_combinations scenario_space, zero_rng)"
    by (simp add: s)
  from t [of "\<lparr>exclude_condition = None, sample_rate = Some 1, target_count = None, other_keys = []\<rparr>"]
  have b: "apply_filtering (all_combinations scenario_space)
        \<lparr>exclude_condition = None, sample_rate = Some 1, target_count = None, other_keys = []\<rparr>
        zero_rng = Inr (scenario_retained, zero_rng)"
    and c: "generate_parameter_combinations scenario_config zero_rng = Inr (scenario_retained, zero_rng)"
    by (simp_all add: s scenario_tests)
  from a b c valid_zero_rng scenario_tests(1) show ?thesis by blast
qed

subsection \<open>The exclusion predicate\<close>

text \<open>
  C9 (amended). The predicate is the fixed condition \<open>K_ch > 2.4 and W_ch > 2.4 and
  W_rib > 9\<close>, and the \<open>exclude_condition\<close> object has no effect on the result. A
  combination without \<open>K_ch\<close> fails with a key error; one without \<open>W_ch\<close> fails
  only when its \<open>K_ch\<close> exceeds 2.4, and one without \<open>W_rib\<close> only when both its
  \<open>K_ch\<close> and its \<open>W_ch\<close> exceed 2.4; a combination whose \<open>K_ch\<close> or \<open>W_ch\<close>
  is at most 2.4 is retained without the later keys being looked up. A failing test
  makes the whole filtering fail.
\<close>

theorem exclusion_predicate_fixed:
  "(map_of c ''K_ch'' = Some k \<and> map_of c ''W_ch'' = Some w \<and> map_of c ''W_rib'' = Some r \<longrightarrow>
      exclusion_test c = Inr (k > 2.4 \<and> w > 2.4 \<and> r > 9))
   \<and> apply_filtering combos (fc\<lparr>exclude_condition := x\<rparr>) g = apply_filtering combos fc g
   \<and> (map_of c ''K_ch'' = None \<longrightarrow> exclusion_test c = Inl (KeyError ''K_ch''))
   \<and> (map_of c ''K_ch'' = Some k \<and> k > 2.4 \<and> map_of c ''W_ch'' = None \<longrightarrow>
        exclusion_test c = Inl (KeyError ''W_ch''))
   \<and> (map_of c ''K_ch'' = Some k \<and> k > 2.4 \<and> map_of c ''W_ch'' = Some w \<and> w > 2.4
        \<and> map_of c ''W_rib'' = None \<longrightarrow>
        exclusion_test c = Inl (KeyError ''W_rib''))
   \<and> (map_of c ''K_ch'' = Some k \<and> \<not> k > 2.4 \<longrightarrow> exclusion_test c = Inr False)
   \<and> (map_of c ''K_ch'' = Some k \<and> map_of c ''W_ch'' = Some w \<and> \<not> w > 2.4 \<longrightarrow>
        exclusion_test c = Inr False)
   \<and> (c \<in> set combos \<and> test_fails c \<longrightarrow> isl (apply_filtering combos fc g))"
proof -
  have "apply_filtering combos (fc\<lparr>exclude_condition := x\<rparr>) g = apply_filtering combos fc g"
    by (simp add: apply_filtering_def)
  moreover have "c \<in> set combos \<and> test_fails c \<longrightarrow> isl (apply_filtering combos fc g)"
    using apply_filtering_fails by blast
  moreover have "map_of c ''K_ch'' = Some k \<and> map_of c ''W_ch'' = Some w \<and> map_of c ''W_rib'' = Some r \<longrightarrow>
      exclusion_test c = Inr (k > 2.4 \<and> w > 2.4 \<and> r > 9)"
    using exclusion_test_present by blast
  moreover have "map_of c ''K_ch'' = None \<longrightarrow> exclusion_test c = Inl (KeyError ''K_ch'')"
    by (simp add: exclusion_test_def getitem_def)
  moreover have "map_of c ''K_ch'' = Some k \<and> k > 2.4 \<and> map_of c ''W_ch'' = None \<longrightarrow>
        exclusion_test c = Inl (KeyError ''W_ch'')"
    by (simp add: exclusion_test_def getitem_def)
  moreover have "map_of c ''K_ch'' = Some k \<and> k > 2.4 \<and> map_of c ''W_ch'' = Some w \<and> w > 2.4
        \<and> map_of c ''W_rib'' = None \<longrightarrow> exclusion_test c = Inl (KeyError ''W_rib'')"
    by (simp add: exclusion_test_def getitem_def)
  moreover have "map_of c ''K_ch'' = Some k \<and> \<not> k > 2.4 \<longrightarrow> exclusion_test c = Inr False"
    by (simp add: exclusion_test_def getitem_def)
  moreover have "map_of c ''K_ch'' = Some k \<and> map_of c ''W_ch'' = Some w \<and> \<not> w > 2.4 \<longrightarrow>
        exclusion_test c = Inr False"
    by (simp add: exclusion_test_def getitem_def)
  ultimately show ?thesis by blast
qed

theorem exclusion_predicate_fixed_witness:
  "exclusion_test [(''K_ch'', 3), (''W_ch'', 3), (''W_rib'', 10)] = Inr True
   \<and> exclusion_test [(''W_ch'', 3), (''W_rib'', 10)] = Inl (KeyError ''K_ch'')
   \<and> exclusion_test [(''K_ch'', 3), (''W_rib'', 10)] = Inl (KeyError ''W_ch'')
   \<and> exclusion_test [(''K_ch'', 3), (''W_ch'', 3)] = Inl (KeyError ''W_rib'')
   \<and> exclusion_test [(''K_ch'', 1)] = Inr False
   \<and> exclusion_test [(''K_ch'', 3), (''W_ch'', 1)] = Inr False
   \<and> isl (apply_filtering [[(''K_ch'', 1)], [(''W_ch'', 3)]] empty_filtering zero_rng)"
proof -
  note t = exclusion_predicate_fixed
  have 1: "exclusion_test [(''K_ch'', 3), (''W_ch'', 3), (''W_rib'', 10)] = Inr True"
    using t [of "[(''K_ch'', 3), (''W_ch'', 3), (''W_rib'', 10)]" 3 3 10] by simp
  have 2: "exclusion_test [(''W_ch'', 3), (''W_rib'', 10)] = Inl (KeyError ''K_ch'')"
    using t [of "[(''W_ch'', 3), (''W_rib'', 10)]"] by simp
  have 3: "exclusion_test [(''K_ch'', 3), (''W_rib'', 10)] = Inl (KeyError ''W_ch'')"
    using t [of "[(''K_ch'', 3), (''W_rib'', 10)]" 3] by simp
  have 4: "exclusion_test [(''K_ch'', 3), (''W_ch'', 3)] = Inl (KeyError ''W_rib'')"
    using t [of "[(''K_ch'', 3), (''W_ch'', 3)]" 3 3] by simp
  have 5: "exclusion_test [(''K_ch'', 1)] = Inr False"
    using t [of "[(''K_ch'', 1)]" 1] by simp
  have 6: "exclusion_test [(''K_ch'', 3), (''W_ch'', 1)] = Inr False"
    using t [of "[(''K_ch'', 3), (''W_ch'', 1)]" 3 1] by simp
  have f: "test_fails [(''W_ch'', 3)]"
    by (simp add: test_fails_def exclusion_test_def getitem_def)
  have 7: "isl (apply_filtering [[(''K_ch'', 1)], [(''W_ch'', 3)]] empty_filtering zero_rng)"
    using t [of "[(''W_ch'', 3)]" _ _ _ "[[(''K_ch'', 1)], [(''W_ch'', 3)]]"] f by simp
  from 1 2 3 4 5 6 7 show ?thesis by blast
qed

text \<open>
  A combination with \<open>K_ch = 1\<close> and neither \<open>W_ch\<close> nor \<open>W_rib\<close> is retained: no
  key error is raised.
\<close>

theorem missing_key_retained_counterexample:
  "map_of [(''K_ch'', 1::real)] ''W_ch'' = None \<and> map_of [(''K_ch'', 1::real)] ''W_rib'' = None
   \<and> apply_filtering [[(''K_ch'', 1)]] empty_filtering zero_rng = Inr ([[(''K_ch'', 1)]], zero_rng)"
  by (simp add: apply_filtering_def empty_filtering_def exclusion_test_def getitem_def)

subsection \<open>Defaults\<close>



section \<open>Properties of the Batch Orchestrator\<close>

subsection \<open>One combination\<close>

lemma outcome_case:
  "x \<noteq> Some KeyboardInterrupt \<Longrightarrow>
     (case x of None \<Rightarrow> a | Some y \<Rightarrow> f y) = (if x = None then a else f Exception)"
proof (cases x)
  case None
  then show ?thesis by simp
next
  case (Some y)
  assume "x \<noteq> Some KeyboardInterrupt"
  with Some have "y = Exception" by (cases y) simp_all
  with Some show ?thesis by simp
qed

lemma outcome_case_exc:
  "x \<noteq> Some KeyboardInterrupt \<Longrightarrow>
     (case x of None \<Rightarrow> a | Some Exception \<Rightarrow> b | Some KeyboardInterrupt \<Rightarrow> c)
     = (if x = None then a else b)"
  by (cases x) (auto split: exc.splits)

lemma outcome_case_remove:
  "x \<noteq> Some KeyboardInterrupt \<Longrightarrow>
     (case x of None \<Rightarrow> a | Some Exception \<Rightarrow> a | Some KeyboardInterrupt \<Rightarrow> c) = a"
  by (cases x) (auto split: exc.splits)

lemma generate_mesh_interrupt_free:
  assumes "mesh_run ep \<noteq> Some KeyboardInterrupt"
  shows "generate_mesh_for_model cfg ep =
     (if mesh_run ep = None then Inr True
      else if error_tolerance cfg = Some ''continue'' then Inr False else Inl Exception)"
  using assms by (simp add: generate_mesh_for_model_def outcome_case_exc)

lemma verify_mesh_interrupt_free:
  assumes "mesh_statistics ep \<noteq> Some KeyboardInterrupt"
  shows "verify_mesh_quality ep = Inr ()"
  using assms by (simp add: verify_mesh_quality_def outcome_case_remove)

lemma loaded_steps_interrupt_free:
  assumes "interrupt_free ep"
  shows "loaded_steps cfg ep idx =
     (if setup_parameters ep = None \<and> mesh_parameters ep = None
         \<and> (mesh_run ep = None \<or> error_tolerance cfg = Some ''continue'')
         \<and> filename ep = None \<and> save ep = None
      then (Inr True, [Save idx]) else (Inl Exception, []))"
proof -
  from assms have a: "setup_parameters ep \<noteq> Some KeyboardInterrupt"
    "mesh_parameters ep \<noteq> Some KeyboardInterrupt" "mesh_run ep \<noteq> Some KeyboardInterrupt"
    "mesh_statistics ep \<noteq> Some KeyboardInterrupt" "filename ep \<noteq> Some KeyboardInterrupt"
    "save ep \<noteq> Some KeyboardInterrupt"
    by (simp_all add: interrupt_free_def)
  show ?thesis
    unfolding loaded_steps_def
    by (simp add: outcome_case [OF a(1)] outcome_case [OF a(2)] outcome_case [OF a(5)]
        outcome_case [OF a(6)] generate_mesh_interrupt_free [OF a(3)]
        verify_mesh_interrupt_free [OF a(4)])
qed

lemma process_single_interrupt_free:
  assumes "interrupt_free ep"
  shows "process_single_combination cfg ep idx = (Inr (completes cfg ep), episode_trace cfg ep idx)"
proof -
  from assms have a: "load ep \<noteq> Some KeyboardInterrupt" "remove ep \<noteq> Some KeyboardInterrupt"
    by (simp_all add: interrupt_free_def)
  show ?thesis
    unfolding process_single_combination_def loaded_steps_interrupt_free [OF assms]
    by (simp add: outcome_case [OF a(1)] outcome_case_remove [OF a(2)] except_Exception_def
        completes_def episode_trace_def acquires_def)
qed

lemma loaded_steps_trace:
  "snd (loaded_steps cfg ep idx) = (if fst (loaded_steps cfg ep idx) = Inr True then [Save idx] else [])"
  by (simp add: loaded_steps_def split: option.splits sum.splits)

lemma process_single_trace:
  "snd (process_single_combination cfg ep idx) =
     (if acquires ep
      then Load idx # (if fst (loaded_steps cfg ep idx) = Inr True then [Save idx] else [])
             @ [Remove idx]
      else [])"
  using loaded_steps_trace [of cfg ep idx]
  by (auto simp: process_single_combination_def acquires_def case_prod_unfold
      split: option.splits exc.splits)

subsection \<open>The loop\<close>

lemma process_loop_interrupt_free:
  assumes "\<forall>i. idx \<le> i \<and> i < idx + length cs \<longrightarrow> interrupt_free (eps i)"
  shows "process_loop cfg eps idx cs s e =
     (Inr (s + length (filter (\<lambda>i. completes cfg (eps i)) [idx..<idx + length cs]),
           e + length (filter (\<lambda>i. \<not> completes cfg (eps i)) [idx..<idx + length cs])),
      concat (map (\<lambda>i. episode_trace cfg (eps i) i) [idx..<idx + length cs]))"
  using assms
proof (induction cs arbitrary: idx s e)
  case Nil
  show ?case by simp
next
  case (Cons c cs)
  from Cons.prems have here: "interrupt_free (eps idx)" by simp
  from Cons.prems have later: "\<forall>i. Suc idx \<le> i \<and> i < Suc idx + length cs \<longrightarrow> interrupt_free (eps i)"
    by simp
  have upt: "[idx..<idx + length (c # cs)] = idx # [Suc idx..<Suc idx + length cs]"
    by (subst upt_rec) simp
  show ?case
    unfolding upt
    by (simp add: process_single_interrupt_free [OF here] Cons.IH [OF later])
qed

lemma process_loop_interrupted:
  assumes "\<forall>i. idx \<le> i \<and> i < k \<longrightarrow> interrupt_free (eps i)"
    and "idx \<le> k" and "k < idx + length cs"
    and "fst (process_single_combination cfg (eps k) k) = Inl KeyboardInterrupt"
  shows "process_loop cfg eps idx cs s e =
     (Inl KeyboardInterrupt,
      concat (map (\<lambda>i. episode_trace cfg (eps i) i) [idx..<k])
        @ snd (process_single_combination cfg (eps k) k))"
  using assms(1-3)
proof (induction cs arbitrary: idx s e)
  case Nil
  then show ?case by simp
next
  case (Cons c cs)
  show ?case
  proof (cases "idx = k")
    case True
    with assms(4) show ?thesis
      by (cases "process_single_combination cfg (eps k) k") simp
  next
    case False
    with Cons.prems have lt: "idx < k" by simp
    with Cons.prems have here: "interrupt_free (eps idx)" by simp
    from Cons.prems lt have later: "\<forall>i. Suc idx \<le> i \<and> i < k \<longrightarrow> interrupt_free (eps i)"
      "Suc idx \<le> k" "k < Suc idx + length cs"
      by simp_all
    from lt have upt: "[idx..<k] = idx # [Suc idx..<k]"
      by (subst upt_rec) simp
    show ?thesis
      unfolding upt
      by (simp add: process_single_interrupt_free [OF here] Cons.IH [OF later])
  qed
qed

lemma length_filter_partition:
  "length (filter P xs) + length (filter (\<lambda>x. \<not> P x) xs) = length xs"
  by (induction xs) simp_all

lemma count_list_distinct: "distinct xs \<Longrightarrow> count_list xs x = (if x \<in> set xs then 1 else 0)"
  by (induction xs) auto

lemma count_episode_traces:
  "count_list (concat (map (\<lambda>i. episode_trace cfg (eps i) i) js)) (Load j)
     = (if acquires (eps j) then count_list js j else 0)"
  "count_list (concat (map (\<lambda>i. episode_trace cfg (eps i) i) js)) (Remove j)
     = (if acquires (eps j) then count_list js j else 0)"
  by (induction js) (auto simp: episode_trace_def)

lemma episode_trace_events:
  "list_all (\<lambda>ev. \<not> is_report ev) (episode_trace cfg ep i)"
  "i \<le> k \<Longrightarrow> list_all (index_at_most k) (episode_trace cfg ep i)"
  by (simp_all add: episode_trace_def is_report_def index_at_most_def)

lemma episode_traces_events:
  "list_all (\<lambda>ev. \<not> is_report ev) (concat (map (\<lambda>i. episode_trace cfg (eps i) i) js))"
  "list_all (\<lambda>i. i \<le> k) js \<Longrightarrow>
     list_all (index_at_most k) (concat (map (\<lambda>i. episode_trace cfg (eps i) i) js))"
  by (induction js) (simp_all add: episode_trace_events)

lemma run_interrupt_free:
  assumes "output_directory_ok env" and "connect_ok env"
    and "disconnect env \<noteq> Some KeyboardInterrupt"
    and "generate_parameter_combinations cfg g = Inr (combinations, g')"
    and "\<forall>i. 1 \<le> i \<and> i \<le> length combinations \<longrightarrow> interrupt_free (episodes env i)"
  shows "run_batch_generation env cfg g =
     (Inr True,
      Connect # concat (map (\<lambda>i. episode_trace cfg (episodes env i) i) [1..<Suc (length combinations)])
        @ [Complete (length combinations)
             (length (filter (\<lambda>i. completes cfg (episodes env i)) [1..<Suc (length combinations)]))
             (length (filter (\<lambda>i. \<not> completes cfg (episodes env i)) [1..<Suc (length combinations)])),
           Disconnect])"
proof -
  from assms(5)
  have "\<forall>i. 1 \<le> i \<and> i < 1 + length combinations \<longrightarrow> interrupt_free (episodes env i)"
    by simp
  from process_loop_interrupt_free [OF this, of cfg 0 0]
  show ?thesis
    using assms(1-4)
    by (simp add: run_batch_generation_def outcome_case_remove)
qed

lemma three_combinations:
  "generate_parameter_combinations three_config g
   = Inr ([[(''K_ch'', 1), (''W_ch'', 1), (''W_rib'', 1)],
           [(''K_ch'', 1), (''W_ch'', 1), (''W_rib'', 2)],
           [(''K_ch'', 1), (''W_ch'', 1), (''W_rib'', 3)]], g)"
  by (simp add: generate_parameter_combinations_def three_config_def all_combinations_def
      empty_filtering_def truthy_def sample_to_target_def)

lemma demo_three_combinations:
  "demo_generate_parameter_combinations three_config g
   = Inr ([[(''K_ch'', 1), (''W_ch'', 1), (''W_rib'', 1)],
           [(''K_ch'', 1), (''W_ch'', 1), (''W_rib'', 2)],
           [(''K_ch'', 1), (''W_ch'', 1), (''W_rib'', 3)]], g)"
  by (simp add: demo_generate_parameter_combinations_def three_config_def all_combinations_def
      empty_filtering_def sample_to_target_def exclusion_test_def getitem_def)

lemma interrupt_free_smooth:
  "interrupt_free smooth" "interrupt_free (smooth\<lparr>save := Some Exception\<rparr>)"
  by (simp_all add: interrupt_free_def smooth_def)

lemma smooth_facts:
  "completes three_config smooth" "\<not> completes three_config (smooth\<lparr>save := Some Exception\<rparr>)"
  "acquires smooth" "acquires (smooth\<lparr>save := Some Exception\<rparr>)"
  "acquires (smooth\<lparr>mesh_run := Some KeyboardInterrupt\<rparr>)"
  by (simp_all add: completes_def acquires_def smooth_def)

subsection \<open>Failure isolation\<close>

text \<open>
  C6. Consider a run over \<open>N\<close> combinations in which steps may fail with exceptions
  (no interrupt arrives). The run returns \<open>True\<close>; each combination is processed on
  its own, counted as successful exactly when its own episode completes and as an error
  otherwise, so the totals add up to \<open>N\<close> and a failing combination changes neither
  the result nor the events of any other; and for every combination the trace of the run
  holds one load and one \<open>client.remove\<close> when a model handle was acquired, and
  neither otherwise.
\<close>

theorem failure_isolation:
  assumes "output_directory_ok env" and "connect_ok env"
    and "disconnect env \<noteq> Some KeyboardInterrupt"
    and "generate_parameter_combinations cfg g = Inr (combinations, g')"
    and "\<forall>i. 1 \<le> i \<and> i \<le> length combinations \<longrightarrow> interrupt_free (episodes env i)"
  shows "let N = length combinations;
             successful = length (filter (\<lambda>i. completes cfg (episodes env i)) [1..<Suc N]);
             errors = length (filter (\<lambda>i. \<not> completes cfg (episodes env i)) [1..<Suc N]);
             trace = snd (run_batch_generation env cfg g)
         in run_batch_generation env cfg g =
              (Inr True,
               Connect # concat (map (\<lambda>i. episode_trace cfg (episodes env i) i) [1..<Suc N])
                 @ [Complete N successful errors, Disconnect])
            \<and> successful + errors = N
            \<and> (\<forall>i. 1 \<le> i \<and> i \<le> N \<longrightarrow>
                  process_single_combination cfg (episodes env i) i
                    = (Inr (completes cfg (episodes env i)), episode_trace cfg (episodes env i) i)
                  \<and> count_list trace (Load i) = (if acquires (episodes env i) then 1 else 0)
                  \<and> count_list trace (Remove i) = (if acquires (episodes env i) then 1 else 0))"
proof -
  note run = run_interrupt_free [OF assms]
  have total: "length (filter (\<lambda>i. completes cfg (episodes env i)) [1..<Suc (length combinations)])
      + length (filter (\<lambda>i. \<not> completes cfg (episodes env i)) [1..<Suc (length combinations)])
      = length combinations"
    by (simp del: upt_Suc add: length_filter_partition)
  have each: "process_single_combination cfg (episodes env i) i
        = (Inr (completes cfg (episodes env i)), episode_trace cfg (episodes env i) i)
      \<and> count_list (snd (run_batch_generation env cfg g)) (Load i)
          = (if acquires (episodes env i) then 1 else 0)
      \<and> count_list (snd (run_batch_generation env cfg g)) (Remove i)
          = (if acquires (episodes env i) then 1 else 0)"
    if i: "1 \<le> i \<and> i \<le> length combinations" for i
  proof -
    from i assms(5) have "interrupt_free (episodes env i)" by blast
    note single = process_single_interrupt_free [OF this, of cfg i]
    from i have "count_list [1..<Suc (length combinations)] i = 1"
      by (simp add: count_list_distinct)
    then show ?thesis
      unfolding run using single by (simp add: count_episode_traces)
  qed
  show ?thesis
    unfolding Let_def using run total each by blast
qed

theorem failure_isolation_witness:
  "output_directory_ok faulty_environment \<and> connect_ok faulty_environment
   \<and> disconnect faulty_environment \<noteq> Some KeyboardInterrupt
   \<and> interrupt_free (episodes faulty_environment 1)
   \<and> interrupt_free (episodes faulty_environment 2)
   \<and> interrupt_free (episodes faulty_environment 3)
   \<and> run_batch_generation faulty_environment three_config zero_rng
       = (Inr True, [Connect, Load 1, Save 1, Remove 1, Load 2, Remove 2,
                     Load 3, Save 3, Remove 3, Complete 3 2 1, Disconnect])"
proof -
  have a: "output_directory_ok faulty_environment" "connect_ok faulty_environment"
    "disconnect faulty_environment \<noteq> Some KeyboardInterrupt"
    by (simp_all add: faulty_environment_def)
  have f: "interrupt_free (episodes faulty_environment i)" for i
    by (simp add: faulty_environment_def interrupt_free_smooth)
  then have b: "\<forall>i. 1 \<le> i \<and> i \<le> length [[(''K_ch'', 1), (''W_ch'', 1), (''W_rib'', 1::real)],
           [(''K_ch'', 1), (''W_ch'', 1), (''W_rib'', 2)],
           [(''K_ch'', 1), (''W_ch'', 1), (''W_rib'', 3)]] \<longrightarrow> interrupt_free (episodes faulty_environment i)"
    by blast
  have u: "[1..<Suc (length [[(''K_ch'', 1), (''W_ch'', 1), (''W_rib'', 1::real)],
           [(''K_ch'', 1), (''W_ch'', 1), (''W_rib'', 2)],
           [(''K_ch'', 1), (''W_ch'', 1), (''W_rib'', 3)]])] = [1, 2, 3]"
    by (simp add: upt_rec)
  have e: "episodes faulty_environment (Suc 0) = smooth"
    "episodes faulty_environment 2 = smooth\<lparr>save := Some Exception\<rparr>"
    "episodes faulty_environment 3 = smooth"
    by (simp_all add: faulty_environment_def)
  from failure_isolation [OF a three_combinations [of zero_rng] b]
  have "run_batch_generation faulty_environment three_config zero_rng
       = (Inr True, [Connect, Load 1, Save 1, Remove 1, Load 2, Remove 2,
                     Load 3, Save 3, Remove 3, Complete 3 2 1, Disconnect])"
    unfolding Let_def u
    by (simp add: e episode_trace_def smooth_facts)
  with a f show ?thesis by blast
qed

subsection \<open>Interruption\<close>

lemma demo_process_loop_interrupted:
  assumes "\<forall>i. idx \<le> i \<and> i < k \<longrightarrow> eps i \<noteq> Raised KeyboardInterrupt"
    and "idx \<le> k" and "k < idx + length cs"
    and "eps k = Raised KeyboardInterrupt"
  shows "demo_process_loop eps idx cs s e =
     (Inl KeyboardInterrupt, concat (map (\<lambda>i. demo_episode_trace (eps i) i) [idx..<k]))"
  using assms(1-3)
proof (induction cs arbitrary: idx s e)
  case Nil
  then show ?case by simp
next
  case (Cons c cs)
  show ?case
  proof (cases "idx = k")
    case True
    with assms(4) show ?thesis
      by (simp add: demo_process_single_combination_def)
  next
    case False
    with Cons.prems have lt: "idx < k" by simp
    with Cons.prems have here: "eps idx \<noteq> Raised KeyboardInterrupt" by simp
    from Cons.prems lt have later: "\<forall>i. Suc idx \<le> i \<and> i < k \<longrightarrow> eps i \<noteq> Raised KeyboardInterrupt"
      "Suc idx \<le> k" "k < Suc idx + length cs"
      by simp_all
    from lt have upt: "[idx..<k] = idx # [Suc idx..<k]"
      by (subst upt_rec) simp
    from here show ?thesis
      unfolding upt
      by (cases "eps idx")
        (auto simp: demo_process_single_combination_def demo_episode_trace_def
          Cons.IH [OF later] split: exc.splits)
  qed
qed

lemma demo_traces_events:
  "list_all (\<lambda>ev. \<not> is_report ev) (concat (map (\<lambda>i. demo_episode_trace (eps i) i) js))"
  by (induction js) (simp_all add: demo_episode_trace_def is_report_def)

lemma process_single_events:
  "list_all (\<lambda>ev. \<not> is_report ev) (snd (process_single_combination cfg ep k))"
  "list_all (index_at_most k) (snd (process_single_combination cfg ep k))"
  by (simp_all add: process_single_trace is_report_def index_at_most_def)

lemma run_interrupted:
  assumes "output_directory_ok env" and "connect_ok env"
    and "disconnect env \<noteq> Some KeyboardInterrupt"
    and "generate_parameter_combinations cfg g = Inr (combinations, g')"
    and "1 \<le> k" and "k \<le> length combinations"
    and "\<forall>i. 1 \<le> i \<and> i < k \<longrightarrow> interrupt_free (episodes env i)"
    and "fst (process_single_combination cfg (episodes env k) k) = Inl KeyboardInterrupt"
  shows "run_batch_generation env cfg g =
     (Inr False,
      Connect # concat (map (\<lambda>i. episode_trace cfg (episodes env i) i) [1..<k])
        @ snd (process_single_combination cfg (episodes env k) k) @ [Disconnect])"
proof -
  from assms(6) have "k < 1 + length combinations" by simp
  from process_loop_interrupted [OF assms(7) assms(5) this assms(8), of 0 0]
  show ?thesis
    using assms(1-4)
    by (simp add: run_batch_generation_def outcome_case_remove)
qed

text \<open>
  C8 (amended). Let an interrupt arrive while combination \<open>k\<close> is processed, the
  combinations before it having been processed without one. The orchestrator starts no
  later combination, calls \<open>client.remove\<close> for the model it holds, closes the
  connection and returns \<open>False\<close>; the models saved before the interrupt stay saved.
  It writes no report: the trace holds neither the final totals nor a summary. The demo
  orchestrator, the one with a summary report, writes it after the loop only and has no
  handler for the interrupt: the interrupt leaves \<open>run_batch_generation\<close> and no
  summary is written.
\<close>

theorem interrupt_stops_run:
  "(output_directory_ok env \<and> connect_ok env \<and> disconnect env \<noteq> Some KeyboardInterrupt
      \<and> generate_parameter_combinations cfg g = Inr (combinations, g')
      \<and> 1 \<le> k \<and> k \<le> length combinations
      \<and> (\<forall>i. 1 \<le> i \<and> i < k \<longrightarrow> interrupt_free (episodes env i))
      \<and> fst (process_single_combination cfg (episodes env k) k) = Inl KeyboardInterrupt
    \<longrightarrow> run_batch_generation env cfg g =
          (Inr False,
           Connect # concat (map (\<lambda>i. episode_trace cfg (episodes env i) i) [1..<k])
             @ snd (process_single_combination cfg (episodes env k) k) @ [Disconnect])
        \<and> snd (process_single_combination cfg (episodes env k) k) =
            (if acquires (episodes env k)
             then Load k # (if fst (loaded_steps cfg (episodes env k) k) = Inr True
                            then [Save k] else []) @ [Remove k]
             else [])
        \<and> list_all (index_at_most k) (snd (run_batch_generation env cfg g))
        \<and> list_all (\<lambda>ev. \<not> is_report ev) (snd (run_batch_generation env cfg g)))
   \<and> (demo_output_directory_ok denv
      \<and> demo_generate_parameter_combinations cfg g = Inr (combinations, g')
      \<and> 1 \<le> k \<and> k \<le> length combinations
      \<and> (\<forall>i. 1 \<le> i \<and> i < k \<longrightarrow> demo_episodes denv i \<noteq> Raised KeyboardInterrupt)
      \<and> demo_episodes denv k = Raised KeyboardInterrupt
    \<longrightarrow> demo_run_batch_generation denv cfg g =
          (Inl KeyboardInterrupt,
           concat (map (\<lambda>i. demo_episode_trace (demo_episodes denv i) i) [1..<k]))
        \<and> list_all (\<lambda>ev. \<not> is_report ev) (snd (demo_run_batch_generation denv cfg g)))"
proof (intro conjI impI)
  assume a: "output_directory_ok env \<and> connect_ok env \<and> disconnect env \<noteq> Some KeyboardInterrupt
      \<and> generate_parameter_combinations cfg g = Inr (combinations, g')
      \<and> 1 \<le> k \<and> k \<le> length combinations
      \<and> (\<forall>i. 1 \<le> i \<and> i < k \<longrightarrow> interrupt_free (episodes env i))
      \<and> fst (process_single_combination cfg (episodes env k) k) = Inl KeyboardInterrupt"
  then have run: "run_batch_generation env cfg g =
          (Inr False,
           Connect # concat (map (\<lambda>i. episode_trace cfg (episodes env i) i) [1..<k])
             @ snd (process_single_combination cfg (episodes env k) k) @ [Disconnect])"
    by (intro run_interrupted [where combinations = combinations and g' = g']) simp_all
  then show "run_batch_generation env cfg g =
          (Inr False,
           Connect # concat (map (\<lambda>i. episode_trace cfg (episodes env i) i) [1..<k])
             @ snd (process_single_combination cfg (episodes env k) k) @ [Disconnect])" .
  show "snd (process_single_combination cfg (episodes env k) k) =
            (if acquires (episodes env k)
             then Load k # (if fst (loaded_steps cfg (episodes env k) k) = Inr True
                            then [Save k] else []) @ [Remove k]
             else [])"
    by (rule process_single_trace)
  have ends: "index_at_most k Connect" "index_at_most k Disconnect"
    "\<not> is_report Connect" "\<not> is_report Disconnect"
    by (simp_all add: index_at_most_def is_report_def)
  have "list_all (\<lambda>i. i \<le> k) [1..<k]" by (simp add: list_all_iff)
  then show "list_all (index_at_most k) (snd (run_batch_generation env cfg g))"
    unfolding run
    by (simp add: episode_traces_events process_single_events ends)
  show "list_all (\<lambda>ev. \<not> is_report ev) (snd (run_batch_generation env cfg g))"
    unfolding run
    by (simp add: episode_traces_events process_single_events ends)
next
  assume a: "demo_output_directory_ok denv
      \<and> demo_generate_parameter_combinations cfg g = Inr (combinations, g')
      \<and> 1 \<le> k \<and> k \<le> length combinations
      \<and> (\<forall>i. 1 \<le> i \<and> i < k \<longrightarrow> demo_episodes denv i \<noteq> Raised KeyboardInterrupt)
      \<and> demo_episodes denv k = Raised KeyboardInterrupt"
  then have "k < 1 + length combinations" by simp
  with a have "demo_process_loop (demo_episodes denv) 1 combinations 0 0 =
     (Inl KeyboardInterrupt, concat (map (\<lambda>i. demo_episode_trace (demo_episodes denv i) i) [1..<k]))"
    by (intro demo_process_loop_interrupted) simp_all
  with a show run: "demo_run_batch_generation denv cfg g =
          (Inl KeyboardInterrupt,
           concat (map (\<lambda>i. demo_episode_trace (demo_episodes denv i) i) [1..<k]))"
    by (simp add: demo_run_batch_generation_def except_Exception_def)
  show "list_all (\<lambda>ev. \<not> is_report ev) (snd (demo_run_batch_generation denv cfg g))"
    unfolding run by (simp add: demo_traces_events)
qed

theorem interrupt_stops_run_witness:
  "output_directory_ok interrupted_environment \<and> connect_ok interrupted_environment
   \<and> disconnect interrupted_environment \<noteq> Some KeyboardInterrupt
   \<and> interrupt_free (episodes interrupted_environment 1)
   \<and> fst (process_single_combination three_config (episodes interrupted_environment 2) 2)
       = Inl KeyboardInterrupt
   \<and> run_batch_generation interrupted_environment three_config zero_rng
       = (Inr False, [Connect, Load 1, Save 1, Remove 1, Load 2, Remove 2, Disconnect])
   \<and> demo_output_directory_ok interrupted_demo_environment
   \<and> demo_episodes interrupted_demo_environment 1 \<noteq> Raised KeyboardInterrupt
   \<and> demo_episodes interrupted_demo_environment 2 = Raised KeyboardInterrupt
   \<and> demo_run_batch_generation interrupted_demo_environment three_config zero_rng
       = (Inl KeyboardInterrupt, [Save 1])"
proof -
  let ?combos = "[[(''K_ch'', 1), (''W_ch'', 1), (''W_rib'', 1::real)],
           [(''K_ch'', 1), (''W_ch'', 1), (''W_rib'', 2)],
           [(''K_ch'', 1), (''W_ch'', 1), (''W_rib'', 3)]]"
  have a: "output_directory_ok interrupted_environment" "connect_ok interrupted_environment"
    "disconnect interrupted_environment \<noteq> Some KeyboardInterrupt"
    "episodes interrupted_environment (Suc 0) = smooth"
    by (simp_all add: interrupted_environment_def)
  have b: "fst (process_single_combination three_config (episodes interrupted_environment 2) 2)
       = Inl KeyboardInterrupt"
    "snd (process_single_combination three_config (episodes interrupted_environment 2) 2)
       = [Load 2, Remove 2]"
    by (simp_all add: interrupted_environment_def process_single_combination_def
        loaded_steps_def generate_mesh_for_model_def smooth_def except_Exception_def)
  have c: "\<forall>i. 1 \<le> i \<and> i < 2 \<longrightarrow> interrupt_free (episodes interrupted_environment i)"
  proof (intro allI impI)
    fix i :: nat
    assume "1 \<le> i \<and> i < 2"
    then have "i = Suc 0" by simp
    then show "interrupt_free (episodes interrupted_environment i)"
      by (simp add: a interrupt_free_smooth)
  qed
  have d: "demo_output_directory_ok interrupted_demo_environment"
    "demo_episodes interrupted_demo_environment (Suc 0) = Generated"
    "demo_episodes interrupted_demo_environment 2 = Raised KeyboardInterrupt"
    by (simp_all add: interrupted_demo_environment_def)
  have e: "\<forall>i. 1 \<le> i \<and> i < 2 \<longrightarrow> demo_episodes interrupted_demo_environment i \<noteq> Raised KeyboardInterrupt"
    by (simp add: interrupted_demo_environment_def)
  have k: "(1::nat) \<le> 2" "2 \<le> length ?combos" by simp_all
  have u: "[1..<2] = [Suc 0]" by (simp add: upt_rec)
  note t = interrupt_stops_run [where env = interrupted_environment and cfg = three_config
      and g = zero_rng and g' = zero_rng and combinations = ?combos and k = 2
      and denv = interrupted_demo_environment]
  from t a(1-3) three_combinations [of zero_rng] k c b(1)
  have "run_batch_generation interrupted_environment three_config zero_rng
       = (Inr False,
          Connect # concat (map (\<lambda>i. episode_trace three_config (episodes interrupted_environment i) i) [1..<2])
            @ snd (process_single_combination three_config (episodes interrupted_environment 2) 2)
            @ [Disconnect])"
    by blast
  then have 1: "run_batch_generation interrupted_environment three_config zero_rng
       = (Inr False, [Connect, Load 1, Save 1, Remove 1, Load 2, Remove 2, Disconnect])"
    unfolding u b(2) by (simp add: a episode_trace_def smooth_facts)
  from t d(1,3) demo_three_combinations [of zero_rng] k e
  have "demo_run_batch_generation interrupted_demo_environment three_config zero_rng
       = (Inl KeyboardInterrupt,
          concat (map (\<lambda>i. demo_episode_trace (demo_episodes interrupted_demo_environment i) i) [1..<2]))"
    by blast
  then have 2: "demo_run_batch_generation interrupted_demo_environment three_config zero_rng
       = (Inl KeyboardInterrupt, [Save 1])"
    unfolding u by (simp add: d demo_episode_trace_def)
  from a b(1) d 1 2 interrupt_free_smooth(1) show ?thesis by simp
qed

text \<open>
  A run over three combinations interrupted during the mesh run of the second: the first
  model is saved, the second handle is removed, the connection is closed, and nothing
  reports the work done. In the demo the interrupt propagates and no summary is written.
\<close>

theorem interrupted_run_counterexample:
  "run_batch_generation interrupted_environment three_config zero_rng
     = (Inr False, [Connect, Load 1, Save 1, Remove 1, Load 2, Remove 2, Disconnect])
   \<and> demo_run_batch_generation interrupted_demo_environment three_config zero_rng
     = (Inl KeyboardInterrupt, [Save 1])"
  by (simp add: run_batch_generation_def demo_run_batch_generation_def three_combinations
      demo_three_combinations interrupted_environment_def interrupted_demo_environment_def
      process_single_combination_def loaded_steps_def generate_mesh_for_model_def
      verify_mesh_quality_def except_Exception_def smooth_def
      demo_process_single_combination_def)

section \<open>Properties of the Filename Encoder\<close>

subsection \<open>Digits, rounding and the decimal exponent\<close>

lemma digits_small: "n < 10 \<Longrightarrow> digits n = [digit n]"
  by (subst digits.simps) simp

lemma digits_large: "10 \<le> n \<Longrightarrow> digits n = digits (n div 10) @ [digit (n mod 10)]"
  by (subst digits.simps) simp

lemma replicate_numeral: "replicate (numeral k) x = x # replicate (pred_numeral k) x"
  by (simp add: numeral_eq_Suc)

lemmas digits_eval = digits_small digits_large digit_def zfill_def replicate_numeral

lemma digit_in: "d < 10 \<Longrightarrow> digit d \<in> set ''0123456789''"
proof -
  assume "d < 10"
  then have "d < length ''0123456789''" by simp
  then have "''0123456789'' ! d \<in> set ''0123456789''" by (rule nth_mem)
  then show ?thesis by (simp only: digit_def)
qed

lemma set_digits: "set (digits n) \<subseteq> set ''0123456789''"
proof (induction n rule: digits.induct)
  case (1 n)
  show ?case
  proof (cases "n < 10")
    case True
    then show ?thesis using digit_in [of n] by (simp only: digits_small) simp
  next
    case False
    then have "n mod 10 < 10" by simp
    from digit_in [OF this] 1 False show ?thesis
      by (simp only: digits_large [of n]) auto
  qed
qed

lemma digits_nonempty: "digits n \<noteq> []"
  by (subst digits.simps) simp

lemma length_digits_bounds:
  "0 < n \<Longrightarrow> 10 ^ (length (digits n) - 1) \<le> n \<and> n < 10 ^ length (digits n)"
proof (induction n rule: digits.induct)
  case (1 n)
  show ?case
  proof (cases "n < 10")
    case True
    with 1 show ?thesis by (simp add: digits_small)
  next
    case False
    then have pos: "0 < n div 10" by simp
    from 1(1) [OF False pos]
    have lo: "10 ^ (length (digits (n div 10)) - 1) \<le> n div 10"
      and hi: "n div 10 < 10 ^ length (digits (n div 10))" by simp_all
    have len: "length (digits n) = Suc (length (digits (n div 10)))"
      using False by (simp add: digits_large)
    have l1: "length (digits (n div 10)) = Suc (length (digits (n div 10)) - 1)"
      using digits_nonempty [of "n div 10"] by (cases "digits (n div 10)") simp_all
    from lo have "10 * 10 ^ (length (digits (n div 10)) - 1) \<le> 10 * (n div 10)" by simp
    also have "\<dots> \<le> n" by simp
    finally have a: "10 ^ length (digits (n div 10)) \<le> n"
      by (subst l1) simp
    from hi have "Suc (n div 10) \<le> 10 ^ length (digits (n div 10))" by simp
    then have "10 * Suc (n div 10) \<le> 10 * 10 ^ length (digits (n div 10))"
      by (rule mult_le_mono2)
    moreover have "n < 10 * Suc (n div 10)"
      by (simp add: dividend_less_times_div)
    ultimately have b: "n < 10 ^ Suc (length (digits (n div 10)))" by simp
    from a b show ?thesis by (simp add: len)
  qed
qed

lemma length_digits_le:
  assumes "n < 10 ^ k" and "0 < k"
  shows "length (digits n) \<le> k"
proof (cases "n = 0")
  case True
  with assms(2) show ?thesis by (simp add: digits_small)
next
  case False
  then have "10 ^ (length (digits n) - 1) \<le> n" using length_digits_bounds [of n] by simp
  from this assms(1) have "(10::nat) ^ (length (digits n) - 1) < 10 ^ k" by (rule le_less_trans)
  then have "length (digits n) - 1 < k" by (rule power_less_imp_less_exp [rotated]) simp
  then show ?thesis by simp
qed

lemma length_zfill: "length (zfill w s) = max w (length s)"
  by (simp add: zfill_def)

lemma length_zfill3: "n < 1000 \<Longrightarrow> length (zfill 3 (digits n)) = 3"
  using length_digits_le [of n 3] by (simp add: length_zfill)

lemma set_zfill: "set (zfill w s) \<subseteq> insert CHR ''0'' (set s)"
  by (auto simp: zfill_def)

lemma pow10_powi: "pow10 e = 10 powi e"
  by (simp add: pow10_def power_int_def inverse_eq_divide power_one_over)

lemma pow10_pos: "0 < pow10 e"
  by (simp add: pow10_powi)

lemma pow10_add: "pow10 (a + b) = pow10 a * pow10 b"
  by (simp add: pow10_powi power_int_add)

lemma pow10_mono: "a \<le> b \<Longrightarrow> pow10 a \<le> pow10 b"
  by (simp add: pow10_powi power_int_increasing)

lemma pow10_strict_mono: "a < b \<Longrightarrow> pow10 a < pow10 b"
  by (simp add: pow10_powi power_int_strict_increasing)

lemma pow10_nat: "pow10 (int k) = 10 ^ k"
  by (simp add: pow10_def)

lemma pow10_neg: "pow10 (- int k) = 1 / 10 ^ k"
  by (simp add: pow10_powi power_int_minus inverse_eq_divide)

lemma decimal_exponent_bounds:
  assumes "0 < x"
  shows "pow10 (decimal_exponent x) \<le> x \<and> x < pow10 (decimal_exponent x + 1)"
proof (cases "1 \<le> x")
  case True
  define n where "n = nat \<lfloor>x\<rfloor>"
  define L where "L = length (digits n)"
  from True have n: "0 < n" by (simp add: n_def)
  from True have fl: "real n \<le> x" "x < real n + 1" by (simp_all add: n_def)
  from length_digits_bounds [OF n] have lo: "10 ^ (L - 1) \<le> n" and hi: "n < 10 ^ L"
    by (simp_all add: L_def)
  have L: "Suc 0 \<le> L" using digits_nonempty [of n] by (cases "digits n") (simp_all add: L_def)
  then have L1: "int (L - 1) = int L - 1" by (simp add: of_nat_diff)
  have e: "decimal_exponent x = int (L - 1)"
    unfolding L1 using True by (simp add: decimal_exponent_def L_def n_def)
  have e1: "decimal_exponent x + 1 = int L"
    unfolding e L1 by simp
  from of_nat_mono [OF lo, where 'a = real] have "10 ^ (L - 1) \<le> real n" by simp
  with fl(1) have a: "pow10 (decimal_exponent x) \<le> x"
    unfolding e pow10_nat by linarith
  from hi have "Suc n \<le> 10 ^ L" by simp
  from of_nat_mono [OF this, where 'a = real] have "real n + 1 \<le> 10 ^ L" by simp
  with fl(2) have b: "x < pow10 (decimal_exponent x + 1)"
    unfolding e1 pow10_nat by linarith
  from a b show ?thesis ..
next
  case False
  with assms have x1: "x < 1" by simp
  define y where "y = 1 / x"
  define k where "k = nat (\<lceil>y\<rceil> - 1)"
  define L where "L = length (digits k)"
  from assms x1 have y1: "1 < y" by (simp add: y_def)
  then have c2: "2 \<le> \<lceil>y\<rceil>" by linarith
  then have k: "0 < k" by (simp add: k_def)
  have rk: "real k = real_of_int \<lceil>y\<rceil> - 1" using c2 by (simp add: k_def)
  have ky: "real k < y" "y \<le> real k + 1"
    unfolding rk by linarith+
  from length_digits_bounds [OF k] have lo: "10 ^ (L - 1) \<le> k" and hi: "k < 10 ^ L"
    by (simp_all add: L_def)
  have L: "Suc 0 \<le> L" using digits_nonempty [of k] by (cases "digits k") (simp_all add: L_def)
  then have L1: "int (L - 1) = int L - 1" by (simp add: of_nat_diff)
  have e: "decimal_exponent x = - int L"
    using False by (simp add: decimal_exponent_def L_def k_def y_def)
  have e1: "decimal_exponent x + 1 = - int (L - 1)"
    unfolding e L1 by simp
  from hi have "Suc k \<le> 10 ^ L" by simp
  from of_nat_mono [OF this, where 'a = real] have "real k + 1 \<le> 10 ^ L" by simp
  with ky(2) have "1 / x \<le> 10 ^ L" unfolding y_def by linarith
  with assms have "1 \<le> 10 ^ L * x" by (simp add: field_simps)
  with assms have a: "pow10 (decimal_exponent x) \<le> x"
    unfolding e pow10_neg by (simp add: field_simps)
  from of_nat_mono [OF lo, where 'a = real] have "10 ^ (L - 1) \<le> real k" by simp
  with ky(1) have "10 ^ (L - 1) < 1 / x" unfolding y_def by linarith
  with assms have "10 ^ (L - 1) * x < 1" by (simp add: field_simps)
  with assms have b: "x < pow10 (decimal_exponent x + 1)"
    unfolding e1 pow10_neg by (simp add: field_simps)
  from a b show ?thesis ..
qed

lemma decimal_exponent_unique:
  assumes "pow10 e \<le> x" and "x < pow10 (e + 1)"
  shows "decimal_exponent x = e"
proof -
  from assms(1) pow10_pos [of e] have pos: "0 < x" by linarith
  note b = decimal_exponent_bounds [OF pos]
  let ?d = "decimal_exponent x"
  have "\<not> ?d < e"
  proof
    assume "?d < e"
    then have "pow10 (?d + 1) \<le> pow10 e" by (intro pow10_mono) simp
    with b assms(1) show False by linarith
  qed
  moreover have "\<not> e < ?d"
  proof
    assume "e < ?d"
    then have "pow10 (e + 1) \<le> pow10 ?d" by (intro pow10_mono) simp
    with b assms(2) show False by linarith
  qed
  ultimately show ?thesis by simp
qed

lemma pow10_numerals: "pow10 1 = 10" "pow10 3 = 1000"
  by (simp_all add: pow10_def)

lemma sci_parts_bounds:
  assumes "0 < x" and "sci_parts x = (m, e)"
  shows "1000 \<le> m \<and> m < 10000 \<and> \<bar>real m * pow10 (e - 3) - x\<bar> \<le> pow10 (e - 3) / 2"
proof -
  define e0 where "e0 = decimal_exponent x"
  define y where "y = x / pow10 e0 * 1000"
  define m0 where "m0 = nat (round_half_even y)"
  from decimal_exponent_bounds [OF assms(1)]
  have lo: "pow10 e0 \<le> x" and hi: "x < pow10 (e0 + 1)" by (simp_all add: e0_def)
  have p: "0 < pow10 e0" by (rule pow10_pos)
  have p1: "pow10 (e0 + 1) = pow10 e0 * 10" by (simp only: pow10_add pow10_numerals)
  from lo p have y_lo: "1000 \<le> y" by (simp add: y_def field_simps)
  from hi p have y_hi: "y < 10000" unfolding p1 by (simp add: y_def field_simps)
  from y_lo have r_lo: "1000 \<le> round_half_even y" by (intro round_half_even_ge) simp
  from y_hi have r_hi: "round_half_even y \<le> 10000" by (intro round_half_even_le) simp
  from r_lo have rm: "real_of_int (round_half_even y) = real m0" by (simp add: m0_def)
  from r_lo r_hi have m0: "1000 \<le> m0" "m0 \<le> 10000" by (simp_all add: m0_def)
  have err: "\<bar>real m0 - y\<bar> \<le> 1 / 2"
    using round_half_even_error [of y] by (simp add: rm)
  have p3: "pow10 e0 = pow10 (e0 - 3) * 1000"
    using pow10_add [of "e0 - 3" 3] by (simp add: pow10_numerals)
  have q: "0 < pow10 (e0 - 3)" by (rule pow10_pos)
  have xy: "x = y * pow10 (e0 - 3)"
    using p unfolding y_def p3 by (simp add: field_simps)
  have "\<bar>real m0 * pow10 (e0 - 3) - x\<bar> = \<bar>real m0 - y\<bar> * pow10 (e0 - 3)"
    unfolding xy using q by (simp add: abs_mult flip: left_diff_distrib)
  also have "\<dots> \<le> 1 / 2 * pow10 (e0 - 3)"
    using err q by (intro mult_right_mono) simp_all
  finally have e_err: "\<bar>real m0 * pow10 (e0 - 3) - x\<bar> \<le> pow10 (e0 - 3) / 2" by simp
  have sp: "sci_parts x = (if m0 = 10000 then (1000, e0 + 1) else (m0, e0))"
    by (simp add: sci_parts_def m0_def y_def e0_def Let_def)
  show ?thesis
  proof (cases "m0 = 10000")
    case True
    with sp assms(2) have me: "m = 1000" "e = e0 + 1" by simp_all
    have "e0 + 1 - 3 = e0 - 3 + 1" by simp
    then have p2: "pow10 (e0 + 1 - 3) = pow10 (e0 - 3) * 10"
      by (simp only: pow10_add pow10_numerals)
    from e_err True have "\<bar>real m * pow10 (e - 3) - x\<bar> \<le> pow10 (e0 - 3) / 2"
      unfolding me p2 by simp
    also have "\<dots> \<le> pow10 (e - 3) / 2"
      unfolding me p2 using q by simp
    finally show ?thesis using me by simp
  next
    case False
    with sp assms(2) have me: "m = m0" "e = e0" by simp_all
    with m0 False e_err show ?thesis by simp
  qed
qed

lemma fixed_error:
  "\<bar>real (nat (round_half_even (\<bar>v\<bar> * 1000))) / 1000 - \<bar>v\<bar>\<bar> \<le> 1 / 2000"
proof -
  have "0 \<le> round_half_even (\<bar>v\<bar> * 1000)" by (intro round_half_even_ge) simp
  then have "real (nat (round_half_even (\<bar>v\<bar> * 1000))) = real_of_int (round_half_even (\<bar>v\<bar> * 1000))"
    by simp
  with round_half_even_error [of "\<bar>v\<bar> * 1000"] show ?thesis by (simp add: field_simps)
qed

lemma replace_Cons_not_e: "c \<noteq> CHR ''e'' \<Longrightarrow> replace_e_plus (c # s) = c # replace_e_plus s"
  by (cases s) simp_all

lemma replace_e_other:
  "d \<noteq> CHR ''+'' \<Longrightarrow> replace_e_plus (c # d # s) = c # replace_e_plus (d # s)"
  by simp

lemma replace_no_e: "CHR ''e'' \<notin> set s \<Longrightarrow> replace_e_plus s = s"
proof (induction s)
  case Nil
  show ?case by simp
next
  case (Cons c s)
  then have "c \<noteq> CHR ''e''" and "replace_e_plus s = s" by auto
  then show ?case by (simp add: replace_Cons_not_e)
qed

lemma replace_prefix_no_e:
  "CHR ''e'' \<notin> set a \<Longrightarrow> replace_e_plus (a @ b) = a @ replace_e_plus b"
proof (induction a)
  case Nil
  show ?case by simp
next
  case (Cons c a)
  then have "c \<noteq> CHR ''e''" and "replace_e_plus (a @ b) = a @ replace_e_plus b" by auto
  then show ?case by (simp add: replace_Cons_not_e)
qed

lemma replace_append:
  assumes "\<not> (a \<noteq> [] \<and> last a = CHR ''e'' \<and> b \<noteq> [] \<and> hd b = CHR ''+'')"
  shows "replace_e_plus (a @ b) = replace_e_plus a @ replace_e_plus b"
  using assms
proof (induction a rule: induct_list012)
  case 1
  show ?case by simp
next
  case (2 c)
  show ?case
  proof (cases b)
    case Nil
    then show ?thesis by simp
  next
    case (Cons d s)
    with 2 have "\<not> (c = CHR ''e'' \<and> d = CHR ''+'')" by simp
    then have "replace_e_plus (c # d # s) = c # replace_e_plus (d # s)" by auto
    with Cons show ?thesis by simp
  qed
next
  case (3 c d s)
  show ?case
  proof (cases "c = CHR ''e'' \<and> d = CHR ''+''")
    case True
    have "replace_e_plus (s @ b) = replace_e_plus s @ replace_e_plus b"
    proof (cases "s = []")
      case True
      then show ?thesis by simp
    next
      case False
      with "3.prems" have "\<not> (s \<noteq> [] \<and> last s = CHR ''e'' \<and> b \<noteq> [] \<and> hd b = CHR ''+'')"
        by simp
      then show ?thesis by (rule "3.IH"(1))
    qed
    moreover have "replace_e_plus ((c # d # s) @ b) = CHR ''e'' # replace_e_plus (s @ b)"
      using True by simp
    moreover have "replace_e_plus (c # d # s) = CHR ''e'' # replace_e_plus s"
      using True by simp
    ultimately show ?thesis by simp
  next
    case False
    from "3.prems"
    have "\<not> (d # s \<noteq> [] \<and> last (d # s) = CHR ''e'' \<and> b \<noteq> [] \<and> hd b = CHR ''+'')"
      by simp
    then have "replace_e_plus ((d # s) @ b) = replace_e_plus (d # s) @ replace_e_plus b"
      by (rule "3.IH"(2))
    moreover have "replace_e_plus ((c # d # s) @ b) = c # replace_e_plus ((d # s) @ b)"
      using False by auto
    moreover have "replace_e_plus (c # d # s) = c # replace_e_plus (d # s)"
      using False by auto
    ultimately show ?thesis by simp
  qed
qed

lemma set_replace: "set (replace_e_plus s) \<subseteq> set s"
  by (induction s rule: replace_e_plus.induct) auto

lemma numeric_Nil: "numeric []"
  by (simp add: numeric_def)

lemma numeric_append: "numeric (a @ b) \<longleftrightarrow> numeric a \<and> numeric b"
  by (simp add: numeric_def)

lemma digit_chars_numeric: "set s \<subseteq> set ''0123456789'' \<Longrightarrow> numeric s"
proof -
  have "set ''0123456789'' \<subseteq> set ''-.0123456789''" by (simp add: subset_iff)
  then show "set s \<subseteq> set ''0123456789'' \<Longrightarrow> numeric s"
    unfolding numeric_def by (rule order_trans [rotated])
qed

lemma numeric_no_e: "numeric s \<Longrightarrow> CHR ''e'' \<notin> set s"
proof -
  have "CHR ''e'' \<notin> set ''-.0123456789''" by simp
  then show "numeric s \<Longrightarrow> CHR ''e'' \<notin> set s"
    unfolding numeric_def by blast
qed

lemma numeric_no_plus: "numeric s \<Longrightarrow> CHR ''+'' \<notin> set s"
proof -
  have "CHR ''+'' \<notin> set ''-.0123456789''" by simp
  then show "numeric s \<Longrightarrow> CHR ''+'' \<notin> set s"
    unfolding numeric_def by blast
qed

lemma numeric_digits: "numeric (digits n)"
  using set_digits by (rule digit_chars_numeric)

lemma zfill_digit_chars: "set (zfill w (digits n)) \<subseteq> set ''0123456789''"
proof -
  have "CHR ''0'' \<in> set ''0123456789''" by simp
  with set_digits [of n] set_zfill [of w "digits n"] show ?thesis by blast
qed

lemma numeric_zfill: "numeric (zfill w (digits n))"
  using zfill_digit_chars by (rule digit_chars_numeric)

lemma numeric_sign: "numeric (sign v)"
  by (cases "v < 0") (simp_all add: numeric_def sign_def)

lemma numeric_point: "numeric ''.''"
  by (simp add: numeric_def)

lemma numeric_mantissa:
  "numeric (sign v @ digits a @ ''.'' @ zfill 3 (digits b))"
  "sign v @ digits a @ ''.'' @ zfill 3 (digits b) \<noteq> []"
  using numeric_sign [of v] numeric_digits [of a] numeric_point numeric_zfill [of 3 b]
  by (simp_all only: numeric_append) simp

lemma format_f3_numeric: "numeric (format_f3 v)" "format_f3 v \<noteq> []"
  unfolding format_f3_def Let_def by (rule numeric_mantissa)+

lemma rendered_f3: "rendered (format_f3 v)"
  unfolding rendered_def using format_f3_numeric [of v] by blast

lemma zfill_nonempty: "zfill w (digits n) \<noteq> []"
  using digits_nonempty [of n] by (simp add: zfill_def)

lemma format_e3_nonzero:
  assumes "v \<noteq> 0" and "sci_parts \<bar>v\<bar> = (m, e)"
  shows "format_e3 v =
     (sign v @ digits (m div 1000) @ ''.'' @ zfill 3 (digits (m mod 1000)))
       @ CHR ''e'' # (if e < 0 then CHR ''-'' else CHR ''+'') # zfill 2 (digits (nat \<bar>e\<bar>))"
  using assms by (simp add: format_e3_def)

lemma rendered_e3: "rendered (format_e3 v)"
proof (cases "v = 0")
  case True
  have n: "numeric ''0.000''" by (simp add: numeric_def)
  have d: "set ''00'' \<subseteq> set ''0123456789''" by simp
  have r: "format_e3 v = ''0.000'' @ CHR ''e'' # CHR ''+'' # ''00''"
    using True by (simp add: format_e3_def)
  show ?thesis
    unfolding rendered_def r
    using n d by (intro exI [of _ "''0.000''"]) blast
next
  case False
  obtain m e where me: "sci_parts \<bar>v\<bar> = (m, e)" by (cases "sci_parts \<bar>v\<bar>")
  note r = format_e3_nonzero [OF False me]
  note a = numeric_mantissa [of v "m div 1000" "m mod 1000"]
  note d = zfill_nonempty [of 2 "nat \<bar>e\<bar>"] zfill_digit_chars [of 2 "nat \<bar>e\<bar>"]
  have t: "(if e < 0 then CHR ''-'' else CHR ''+'') = CHR ''+''
      \<or> (if e < 0 then CHR ''-'' else CHR ''+'') = CHR ''-''" by simp
  show ?thesis
    unfolding rendered_def r
    using a d t
    by (intro exI [of _ "sign v @ digits (m div 1000) @ ''.'' @ zfill 3 (digits (m mod 1000))"])
      blast
qed

lemma rendered_format_value: "rendered (format_value v)"
  by (simp add: format_value_def rendered_f3 rendered_e3)

lemma generate_filename_single:
  "generate_filename single_field [(''value'', v)] = Inr (replace_e_plus (format_value v))"
  by (simp add: generate_filename_def single_field_def getitem_def)

lemma replace_format_f3: "replace_e_plus (format_f3 v) = format_f3 v"
  using format_f3_numeric(1) [of v] by (intro replace_no_e numeric_no_e)

lemma replace_scientific:
  assumes "numeric a" and "CHR ''e'' \<notin> set d"
  shows "replace_e_plus (a @ CHR ''e'' # CHR ''+'' # d) = a @ CHR ''e'' # d"
    and "replace_e_plus (a @ CHR ''e'' # CHR ''-'' # d) = a @ CHR ''e'' # CHR ''-'' # d"
proof -
  note p = replace_prefix_no_e [OF numeric_no_e [OF assms(1)]]
  note d = replace_no_e [OF assms(2)]
  show "replace_e_plus (a @ CHR ''e'' # CHR ''+'' # d) = a @ CHR ''e'' # d"
    unfolding p by (simp add: d)
  have "replace_e_plus (CHR ''e'' # CHR ''-'' # d) = CHR ''e'' # replace_e_plus (CHR ''-'' # d)"
    by (rule replace_e_other) simp
  also have "replace_e_plus (CHR ''-'' # d) = CHR ''-'' # replace_e_plus d"
    by (rule replace_Cons_not_e) simp
  finally show "replace_e_plus (a @ CHR ''e'' # CHR ''-'' # d) = a @ CHR ''e'' # CHR ''-'' # d"
    unfolding p by (simp add: d)
qed

lemma replace_format_e3:
  assumes "v \<noteq> 0" and "sci_parts \<bar>v\<bar> = (m, e)"
  shows "replace_e_plus (format_e3 v) =
     sign v @ digits (m div 1000) @ ''.'' @ zfill 3 (digits (m mod 1000)) @ ''e''
       @ (if e < 0 then ''-'' else []) @ zfill 2 (digits (nat \<bar>e\<bar>))"
proof -
  note a = numeric_mantissa(1) [of v "m div 1000" "m mod 1000"]
  have d: "CHR ''e'' \<notin> set (zfill 2 (digits (nat \<bar>e\<bar>)))"
    using numeric_zfill by (rule numeric_no_e)
  note r = replace_scientific [OF a d]
  show ?thesis
  proof (cases "e < 0")
    case True
    then have "replace_e_plus (format_e3 v) =
        (sign v @ digits (m div 1000) @ ''.'' @ zfill 3 (digits (m mod 1000)))
          @ CHR ''e'' # CHR ''-'' # zfill 2 (digits (nat \<bar>e\<bar>))"
      unfolding format_e3_nonzero [OF assms] by (simp only: if_True r)
    with True show ?thesis by simp
  next
    case False
    then have "replace_e_plus (format_e3 v) =
        (sign v @ digits (m div 1000) @ ''.'' @ zfill 3 (digits (m mod 1000)))
          @ CHR ''e'' # zfill 2 (digits (nat \<bar>e\<bar>))"
      unfolding format_e3_nonzero [OF assms] by (simp only: if_False r)
    with False show ?thesis by simp
  qed
qed

lemma length_exponent: "2 \<le> length (zfill 2 (digits n))"
  by (simp add: length_zfill)

lemmas sci_eval = sci_parts_def decimal_exponent_def pow10_def round_half_even_def digits_eval

lemma sci_parts_0034: "sci_parts \<bar>34 / 10000\<bar> = (3400, - 3)"
  by (simp add: sci_eval)

lemma format_0034: "format_value (34 / 10000) = ''3.400e-03''"
proof -
  have "format_e3 (34 / 10000) = ''3.400e-03''"
    by (subst format_e3_nonzero [OF _ sci_parts_0034]) (simp_all add: sign_def digits_eval)
  then show ?thesis by (simp add: format_value_def)
qed

subsection \<open>Decimal literals and doubles\<close>

text \<open>
  The JSON literal \<open>0.0034\<close> is read as the double nearest to it, which renders like
  the decimal itself. The literal \<open>0.0125\<close> is read as a double just above the tie,
  which renders \<open>0.013\<close>, while the decimal itself would render \<open>0.012\<close>.
\<close>

lemma nearest_0034: "nearest (34 / 10000) = 7839866231326559 / 2 ^ 61"
  by (subst nearest_eval [where e = "- 9"]) (simp_all add: pow2_def round_half_even_def)

lemma sci_parts_0034_double: "sci_parts \<bar>7839866231326559 / 2 ^ 61\<bar> = (3400, - 3)"
  by (simp add: sci_eval)

lemma format_0034_double: "format_value (nearest (34 / 10000)) = ''3.400e-03''"
proof -
  have "format_e3 (7839866231326559 / 2 ^ 61) = ''3.400e-03''"
    by (subst format_e3_nonzero [OF _ sci_parts_0034_double]) (simp_all add: sign_def digits_eval)
  then show ?thesis unfolding nearest_0034 by (simp add: format_value_def)
qed

lemma nearest_0125: "nearest (125 / 10000) = 7205759403792794 / 2 ^ 59"
  by (subst nearest_eval [where e = "- 7"]) (simp_all add: pow2_def round_half_even_def)

lemma format_0125_double: "format_value (nearest (125 / 10000)) = ''0.013''"
  unfolding nearest_0125
  by (simp add: format_value_def format_f3_def round_half_even_def sign_def digits_eval)

lemma format_0125_exact: "format_value (125 / 10000) = ''0.012''"
  by (simp add: format_value_def format_f3_def round_half_even_def sign_def digits_eval)

subsection \<open>The rendering of a value\<close>

text \<open>
  C5 (amended). For every finite value \<open>v\<close> (a double other than the negative zero,
  taken at its exact value), the name generated from the format \<open>{value}\<close> with an
  empty extension is the rendering of the value. When \<open>0.01 \<le> |v| \<le> 10\<^sup>6\<close> it is the
  fixed-point notation with exactly three decimals, the value rounded to the nearest
  thousandth. When \<open>|v| < 0.01\<close> or \<open>|v| > 10\<^sup>6\<close> it is the scientific notation:
  one digit, the point, exactly three decimals (the mantissa rounded to the nearest
  thousandth), \<open>e\<close>, a minus sign for a negative exponent and no sign otherwise, and
  the exponent with at least two digits. Zero is rendered \<open>0.000e00\<close>, and the value
  read from the literal \<open>0.0034\<close> is rendered \<open>3.400e-03\<close>.
\<close>

theorem value_rendering:
  "generate_filename single_field [(''value'', v)] = Inr (replace_e_plus (format_value v))
   \<and> (\<not> (\<bar>v\<bar> < 1 / 100 \<or> \<bar>v\<bar> > 1000000) \<longrightarrow>
        (let n = nat (round_half_even (\<bar>v\<bar> * 1000))
         in replace_e_plus (format_value v)
              = sign v @ digits (n div 1000) @ ''.'' @ zfill 3 (digits (n mod 1000))
            \<and> length (zfill 3 (digits (n mod 1000))) = 3
            \<and> \<bar>real n / 1000 - \<bar>v\<bar>\<bar> \<le> 1 / 2000))
   \<and> ((\<bar>v\<bar> < 1 / 100 \<or> \<bar>v\<bar> > 1000000) \<and> v \<noteq> 0 \<longrightarrow>
        (case sci_parts \<bar>v\<bar> of
           (m, e) \<Rightarrow>
             replace_e_plus (format_value v)
               = sign v @ [digit (m div 1000)] @ ''.'' @ zfill 3 (digits (m mod 1000)) @ ''e''
                   @ (if e < 0 then ''-'' else '''') @ zfill 2 (digits (nat \<bar>e\<bar>))
             \<and> length (zfill 3 (digits (m mod 1000))) = 3
             \<and> 2 \<le> length (zfill 2 (digits (nat \<bar>e\<bar>)))
             \<and> 1000 \<le> m \<and> m < 10000
             \<and> \<bar>real m * pow10 (e - 3) - \<bar>v\<bar>\<bar> \<le> pow10 (e - 3) / 2))
   \<and> replace_e_plus (format_value 0) = ''0.000e00''
   \<and> generate_filename single_field [(''value'', nearest (34 / 10000))] = Inr ''3.400e-03''"
proof (intro conjI impI)
  show "generate_filename single_field [(''value'', v)] = Inr (replace_e_plus (format_value v))"
    by (rule generate_filename_single)
next
  assume f: "\<not> (\<bar>v\<bar> < 1 / 100 \<or> \<bar>v\<bar> > 1000000)"
  then have "format_value v = format_f3 v" by (simp add: format_value_def)
  then have "replace_e_plus (format_value v) = format_f3 v" by (simp add: replace_format_f3)
  moreover have "nat (round_half_even (\<bar>v\<bar> * 1000)) mod 1000 < 1000" by simp
  ultimately show "let n = nat (round_half_even (\<bar>v\<bar> * 1000))
         in replace_e_plus (format_value v)
              = sign v @ digits (n div 1000) @ ''.'' @ zfill 3 (digits (n mod 1000))
            \<and> length (zfill 3 (digits (n mod 1000))) = 3
            \<and> \<bar>real n / 1000 - \<bar>v\<bar>\<bar> \<le> 1 / 2000"
    unfolding Let_def using fixed_error [of v]
    by (simp add: format_f3_def Let_def length_zfill3)
next
  assume s: "(\<bar>v\<bar> < 1 / 100 \<or> \<bar>v\<bar> > 1000000) \<and> v \<noteq> 0"
  obtain m e where me: "sci_parts \<bar>v\<bar> = (m, e)" by (cases "sci_parts \<bar>v\<bar>")
  from s have pos: "0 < \<bar>v\<bar>" by simp
  note b = sci_parts_bounds [OF pos me]
  then have "m < 10000" by simp
  then have "m div 1000 < 10" by (simp add: div_less_iff_less_mult)
  then have d1: "digits (m div 1000) = [digit (m div 1000)]" by (rule digits_small)
  have "m mod 1000 < 1000" by simp
  then have l3: "length (zfill 3 (digits (m mod 1000))) = 3" by (rule length_zfill3)
  from s have nz: "v \<noteq> 0" by simp
  from s have "format_value v = format_e3 v" by (simp add: format_value_def)
  then have r: "replace_e_plus (format_value v)
               = sign v @ [digit (m div 1000)] @ ''.'' @ zfill 3 (digits (m mod 1000)) @ ''e''
                   @ (if e < 0 then ''-'' else '''') @ zfill 2 (digits (nat \<bar>e\<bar>))"
    using replace_format_e3 [OF nz me] by (simp only: d1)
  show "case sci_parts \<bar>v\<bar> of
           (m, e) \<Rightarrow>
             replace_e_plus (format_value v)
               = sign v @ [digit (m div 1000)] @ ''.'' @ zfill 3 (digits (m mod 1000)) @ ''e''
                   @ (if e < 0 then ''-'' else '''') @ zfill 2 (digits (nat \<bar>e\<bar>))
             \<and> length (zfill 3 (digits (m mod 1000))) = 3
             \<and> 2 \<le> length (zfill 2 (digits (nat \<bar>e\<bar>)))
             \<and> 1000 \<le> m \<and> m < 10000
             \<and> \<bar>real m * pow10 (e - 3) - \<bar>v\<bar>\<bar> \<le> pow10 (e - 3) / 2"
    unfolding me prod.case
    using r l3 length_exponent [of "nat \<bar>e\<bar>"] b by blast
next
  show "replace_e_plus (format_value 0) = ''0.000e00''"
    by (simp add: format_value_def format_e3_def)
next
  show "generate_filename single_field [(''value'', nearest (34 / 10000))] = Inr ''3.400e-03''"
    unfolding generate_filename_single format_0034_double by simp
qed

text \<open>
  The value 12 is in the fixed-point range and renders \<open>12.000\<close>; the double read
  from \<open>0.0034\<close> is below 0.01, not zero, and renders \<open>3.400e-03\<close>.
\<close>

theorem value_rendering_witness:
  "\<not> (\<bar>12 :: real\<bar> < 1 / 100 \<or> \<bar>12 :: real\<bar> > 1000000)
   \<and> replace_e_plus (format_value 12) = ''12.000''
   \<and> (\<bar>nearest (34 / 10000)\<bar> < 1 / 100 \<or> \<bar>nearest (34 / 10000)\<bar> > 1000000)
   \<and> nearest (34 / 10000) \<noteq> 0
   \<and> replace_e_plus (format_value (nearest (34 / 10000))) = ''3.400e-03''"
proof -
  have a: "\<not> (\<bar>12 :: real\<bar> < 1 / 100 \<or> \<bar>12 :: real\<bar> > 1000000)" by simp
  have b: "(\<bar>nearest (34 / 10000)\<bar> < 1 / 100 \<or> \<bar>nearest (34 / 10000)\<bar> > 1000000)
      \<and> nearest (34 / 10000) \<noteq> 0"
    unfolding nearest_0034 by simp
  have n: "nat (round_half_even (\<bar>12\<bar> * 1000)) = 12000"
    by (simp add: round_half_even_def)
  from value_rendering [of 12, THEN conjunct2, THEN conjunct1, rule_format, OF a]
  have "let n = nat (round_half_even (\<bar>12\<bar> * 1000))
         in replace_e_plus (format_value 12)
              = sign 12 @ digits (n div 1000) @ ''.'' @ zfill 3 (digits (n mod 1000))
            \<and> length (zfill 3 (digits (n mod 1000))) = 3
            \<and> \<bar>real n / 1000 - \<bar>12\<bar>\<bar> \<le> 1 / 2000" .
  then have 1: "replace_e_plus (format_value 12) = ''12.000''"
    unfolding Let_def n by (simp add: sign_def digits_eval)
  from value_rendering [of "nearest (34 / 10000)", THEN conjunct2, THEN conjunct2,
      THEN conjunct1, rule_format, OF b]
  have "case sci_parts \<bar>nearest (34 / 10000)\<bar> of
           (m, e) \<Rightarrow>
             replace_e_plus (format_value (nearest (34 / 10000)))
               = sign (nearest (34 / 10000)) @ [digit (m div 1000)] @ ''.''
                   @ zfill 3 (digits (m mod 1000)) @ ''e''
                   @ (if e < 0 then ''-'' else []) @ zfill 2 (digits (nat \<bar>e\<bar>))
             \<and> length (zfill 3 (digits (m mod 1000))) = 3
             \<and> 2 \<le> length (zfill 2 (digits (nat \<bar>e\<bar>)))
             \<and> 1000 \<le> m \<and> m < 10000
             \<and> \<bar>real m * pow10 (e - 3) - \<bar>nearest (34 / 10000)\<bar>\<bar> \<le> pow10 (e - 3) / 2" .
  then have "replace_e_plus (format_value (7839866231326559 / 2 ^ 61))
               = sign (7839866231326559 / 2 ^ 61) @ [digit (3400 div 1000)] @ ''.''
                   @ zfill 3 (digits (3400 mod 1000)) @ ''e''
                   @ (if (- 3 :: int) < 0 then ''-'' else []) @ zfill 2 (digits (nat \<bar>- 3\<bar>))"
    unfolding nearest_0034 sci_parts_0034_double prod.case by (rule conjunct1)
  then have 2: "replace_e_plus (format_value (nearest (34 / 10000))) = ''3.400e-03''"
    unfolding nearest_0034 by (simp add: sign_def digits_eval)
  from a b 1 2 show ?thesis by blast
qed

text \<open>
  The exponent of the value read from \<open>0.0034\<close> is written with two digits: the
  name is \<open>3.400e-03\<close>, not \<open>3.400e-3\<close>.
\<close>

theorem exponent_digits_counterexample:
  "generate_filename single_field [(''value'', nearest (34 / 10000))] = Inr ''3.400e-03''
   \<and> generate_filename single_field [(''value'', 34 / 10000)] = Inr ''3.400e-03''
   \<and> ''3.400e-03'' \<noteq> ''3.400e-3''"
  unfolding generate_filename_single format_0034 format_0034_double by simp

section \<open>Collisions of the Filename Encoder\<close>

subsection \<open>Rendered values and separators\<close>

lemma split_unique:
  assumes "c \<notin> set a" and "c \<notin> set a'" and "a @ c # y = a' @ c # y'"
  shows "a = a' \<and> y = y'"
  using assms
proof (induction a arbitrary: a')
  case Nil
  then show ?case by (cases a') auto
next
  case (Cons x a)
  then show ?case by (cases a') auto
qed

lemma rendered_cases:
  assumes "rendered r"
  obtains (plain) "numeric r" "r \<noteq> []"
  | (sci) a t d where "r = a @ CHR ''e'' # t # d" "numeric a" "a \<noteq> []"
      "t = CHR ''+'' \<or> t = CHR ''-''" "d \<noteq> []" "set d \<subseteq> set ''0123456789''"
  using assms unfolding rendered_def by blast

lemma numeric_chars: "numeric s \<Longrightarrow> set s \<subseteq> set ''+-.0123456789e''"
proof -
  have "set ''-.0123456789'' \<subseteq> set ''+-.0123456789e''" by (simp add: subset_iff)
  then show "numeric s \<Longrightarrow> set s \<subseteq> set ''+-.0123456789e''"
    unfolding numeric_def by (rule order_trans [rotated])
qed

lemma digit_chars: "set d \<subseteq> set ''0123456789'' \<Longrightarrow> set d \<subseteq> set ''+-.0123456789e''"
  by (rule numeric_chars) (rule digit_chars_numeric)

lemma rendered_chars:
  assumes "rendered r"
  shows "set r \<subseteq> set ''+-.0123456789e''"
  using assms
proof (cases rule: rendered_cases)
  case plain
  then show ?thesis by (intro numeric_chars)
next
  case (sci a t d)
  have e: "CHR ''e'' \<in> set ''+-.0123456789e''" by simp
  have t: "t \<in> set ''+-.0123456789e''" using sci(4) by auto
  from numeric_chars [OF sci(2)] digit_chars [OF sci(6)] e t show ?thesis
    unfolding sci(1) by auto
qed

lemma separator_not_rendered: "rendered r \<Longrightarrow> separator c \<Longrightarrow> c \<notin> set r"
  using rendered_chars [of r] unfolding separator_def by blast

lemma separator_not_e: "separator c \<Longrightarrow> c \<noteq> CHR ''e''"
proof -
  have "CHR ''e'' \<in> set ''+-.0123456789e''" by simp
  then show "separator c \<Longrightarrow> c \<noteq> CHR ''e''"
    unfolding separator_def by blast
qed

lemma rendered_hd:
  assumes "rendered r"
  shows "r \<noteq> [] \<and> hd r \<noteq> CHR ''+''"
proof -
  have h: "a \<noteq> [] \<Longrightarrow> numeric a \<Longrightarrow> hd a \<noteq> CHR ''+''" for a
    using numeric_no_plus [of a] hd_in_set [of a] by metis
  from assms show ?thesis
  proof (cases rule: rendered_cases)
    case plain
    with h show ?thesis by blast
  next
    case (sci a t d)
    with h [of a] show ?thesis by simp
  qed
qed

lemma rendered_last:
  assumes "rendered r"
  shows "last r \<noteq> CHR ''e''"
  using assms
proof (cases rule: rendered_cases)
  case plain
  with numeric_no_e [of r] last_in_set [of r] show ?thesis by metis
next
  case (sci a t d)
  from sci(5) have "last r = last d" unfolding sci(1) by simp
  moreover have "CHR ''e'' \<notin> set d"
    using sci(6) by (intro numeric_no_e digit_chars_numeric)
  ultimately show ?thesis using last_in_set [OF sci(5)] by metis
qed

lemma replace_rendered_cases:
  assumes "rendered r"
  obtains (plain) "replace_e_plus r = r" "CHR ''e'' \<notin> set r"
  | (sci) a y where "replace_e_plus r = a @ CHR ''e'' # y" "CHR ''e'' \<notin> set a"
      "\<exists>d. set d \<subseteq> set ''0123456789'' \<and> d \<noteq> []
           \<and> (r = a @ CHR ''e'' # CHR ''+'' # d \<and> y = d
              \<or> r = a @ CHR ''e'' # CHR ''-'' # d \<and> y = CHR ''-'' # d)"
  using assms
proof (cases rule: rendered_cases)
  case plain
  then have "CHR ''e'' \<notin> set r" by (intro numeric_no_e)
  with replace_no_e [OF this] show ?thesis by (rule that(1))
next
  case (sci a t d)
  have de: "CHR ''e'' \<notin> set d"
    using sci(6) by (intro numeric_no_e digit_chars_numeric)
  note rs = replace_scientific [OF sci(2) de]
  from sci(4) show ?thesis
  proof
    assume t: "t = CHR ''+''"
    show ?thesis
    proof (rule that(2))
      show "replace_e_plus r = a @ CHR ''e'' # d" unfolding sci(1) t by (rule rs(1))
      show "CHR ''e'' \<notin> set a" using sci(2) by (rule numeric_no_e)
      show "\<exists>d'. set d' \<subseteq> set ''0123456789'' \<and> d' \<noteq> []
           \<and> (r = a @ CHR ''e'' # CHR ''+'' # d' \<and> d = d'
              \<or> r = a @ CHR ''e'' # CHR ''-'' # d' \<and> d = CHR ''-'' # d')"
        using sci(1,5,6) t by blast
    qed
  next
    assume t: "t = CHR ''-''"
    show ?thesis
    proof (rule that(2))
      show "replace_e_plus r = a @ CHR ''e'' # CHR ''-'' # d" unfolding sci(1) t by (rule rs(2))
      show "CHR ''e'' \<notin> set a" using sci(2) by (rule numeric_no_e)
      show "\<exists>d'. set d' \<subseteq> set ''0123456789'' \<and> d' \<noteq> []
           \<and> (r = a @ CHR ''e'' # CHR ''+'' # d' \<and> CHR ''-'' # d = d'
              \<or> r = a @ CHR ''e'' # CHR ''-'' # d' \<and> CHR ''-'' # d = CHR ''-'' # d')"
        using sci(1,5,6) t by blast
    qed
  qed
qed

lemma hd_not_outside: "x \<notin> S \<Longrightarrow> set d \<subseteq> S \<Longrightarrow> d \<noteq> [] \<Longrightarrow> hd d \<noteq> x"
  by (metis hd_in_set subsetD)

lemma minus_not_digit: "set d \<subseteq> set ''0123456789'' \<Longrightarrow> d \<noteq> [] \<Longrightarrow> hd d \<noteq> CHR ''-''"
proof -
  have "CHR ''-'' \<notin> set ''0123456789''" by simp
  then show "set d \<subseteq> set ''0123456789'' \<Longrightarrow> d \<noteq> [] \<Longrightarrow> hd d \<noteq> CHR ''-''"
    by (rule hd_not_outside)
qed

lemma replace_rendered_inject:
  assumes "rendered r" and "rendered r'" and "replace_e_plus r = replace_e_plus r'"
  shows "r = r'"
  using assms(1)
proof (cases rule: replace_rendered_cases)
  case plain
  from assms(2) show ?thesis
  proof (cases rule: replace_rendered_cases)
    case plain': plain
    with plain assms(3) show ?thesis by simp
  next
    case (sci a y)
    with plain assms(3) have "CHR ''e'' \<notin> set (a @ CHR ''e'' # y)" by simp
    then show ?thesis by simp
  qed
next
  case (sci a y)
  from assms(2) show ?thesis
  proof (cases rule: replace_rendered_cases)
    case plain
    with sci assms(3) have "CHR ''e'' \<notin> set (a @ CHR ''e'' # y)" by simp
    then show ?thesis by simp
  next
    case sci': (sci a' y')
    from sci(1) sci'(1) assms(3) have "a @ CHR ''e'' # y = a' @ CHR ''e'' # y'" by simp
    from split_unique [OF sci(2) sci'(2) this] have eq: "a = a'" "y = y'" by simp_all
    from sci(3) obtain d where d: "set d \<subseteq> set ''0123456789''" "d \<noteq> []"
      "r = a @ CHR ''e'' # CHR ''+'' # d \<and> y = d \<or> r = a @ CHR ''e'' # CHR ''-'' # d \<and> y = CHR ''-'' # d"
      by blast
    from sci'(3) obtain d' where d': "set d' \<subseteq> set ''0123456789''" "d' \<noteq> []"
      "r' = a' @ CHR ''e'' # CHR ''+'' # d' \<and> y' = d' \<or> r' = a' @ CHR ''e'' # CHR ''-'' # d' \<and> y' = CHR ''-'' # d'"
      by blast
    note m = minus_not_digit [OF d(1,2)] minus_not_digit [OF d'(1,2)]
    from d(3) d'(3) eq m show ?thesis by auto
  qed
qed

lemma starts_with_separatorE:
  assumes "starts_with_separator ps"
  obtains c cs rest where "ps = Lit (c # cs) # rest" "separator c"
  using assms unfolding starts_with_separator_def
  by (auto split: list.splits piece.splits)

lemma str_format_Field:
  assumes "str_format (Field k # ps) d = Inr n"
  obtains r m where "map_of d k = Some r" "str_format ps d = Inr m" "n = r @ m"
  using assms by (auto simp: getitem_def split: option.splits sum.splits)

lemma str_format_Lit:
  assumes "str_format (Lit s # ps) d = Inr n"
  obtains m where "str_format ps d = Inr m" "n = s @ m"
  using assms by (auto split: sum.splits)

lemma replace_around_rendered:
  assumes "rendered r"
  shows "replace_e_plus (p @ r @ t) = replace_e_plus p @ replace_e_plus r @ replace_e_plus t"
proof -
  from rendered_hd [OF assms] have "r @ t \<noteq> []" "hd (r @ t) \<noteq> CHR ''+''" by simp_all
  then have "replace_e_plus (p @ r @ t) = replace_e_plus p @ replace_e_plus (r @ t)"
    by (intro replace_append) simp
  moreover from rendered_last [OF assms]
  have "replace_e_plus (r @ t) = replace_e_plus r @ replace_e_plus t"
    by (intro replace_append) simp
  ultimately show ?thesis by simp
qed

lemma names_agree:
  assumes "well_separated ps"
    and "str_format ps d1 = Inr n1" and "str_format ps d2 = Inr n2"
    and "replace_e_plus (p @ n1 @ ext) = replace_e_plus (p @ n2 @ ext)"
    and "\<forall>k v. map_of d1 k = Some v \<longrightarrow> rendered v"
    and "\<forall>k v. map_of d2 k = Some v \<longrightarrow> rendered v"
    and "Field k \<in> set ps"
  shows "\<exists>r. map_of d1 k = Some r \<and> map_of d2 k = Some r"
  using assms(1-4,7)
proof (induction ps arbitrary: p n1 n2)
  case Nil
  then show ?case by simp
next
  case (Cons piece ps)
  show ?case
  proof (cases piece)
    case (Lit s)
    from Cons.prems(2) obtain m1 where m1: "str_format ps d1 = Inr m1" "n1 = s @ m1"
      unfolding Lit by (rule str_format_Lit)
    from Cons.prems(3) obtain m2 where m2: "str_format ps d2 = Inr m2" "n2 = s @ m2"
      unfolding Lit by (rule str_format_Lit)
    from Cons.prems(4) have "replace_e_plus ((p @ s) @ m1 @ ext) = replace_e_plus ((p @ s) @ m2 @ ext)"
      unfolding m1(2) m2(2) by simp
    moreover from Cons.prems(1) have "well_separated ps" unfolding Lit by simp
    moreover from Cons.prems(5) have "Field k \<in> set ps" unfolding Lit by simp
    ultimately show ?thesis using m1(1) m2(1) by (intro Cons.IH [of m1 m2 "p @ s"])
  next
    case (Field k0)
    from Cons.prems(2) obtain r1 m1 where r1: "map_of d1 k0 = Some r1"
      "str_format ps d1 = Inr m1" "n1 = r1 @ m1"
      unfolding Field by (rule str_format_Field)
    from Cons.prems(3) obtain r2 m2 where r2: "map_of d2 k0 = Some r2"
      "str_format ps d2 = Inr m2" "n2 = r2 @ m2"
      unfolding Field by (rule str_format_Field)
    from r1(1) assms(5) have rr1: "rendered r1" by blast
    from r2(1) assms(6) have rr2: "rendered r2" by blast
    from Cons.prems(1) have sep: "ps = [] \<or> starts_with_separator ps" and ws: "well_separated ps"
      unfolding Field by simp_all
    have "replace_e_plus (p @ r1 @ m1 @ ext) = replace_e_plus (p @ r2 @ m2 @ ext)"
      using Cons.prems(4) unfolding r1(3) r2(3) by simp
    then have eq: "replace_e_plus r1 @ replace_e_plus (m1 @ ext)
        = replace_e_plus r2 @ replace_e_plus (m2 @ ext)"
      unfolding replace_around_rendered [OF rr1] replace_around_rendered [OF rr2] by simp
    have both: "replace_e_plus r1 = replace_e_plus r2
        \<and> replace_e_plus (m1 @ ext) = replace_e_plus (m2 @ ext)"
      using sep
    proof
      assume "ps = []"
      with r1(2) r2(2) have "m1 = []" "m2 = []" by simp_all
      with eq show ?thesis by simp
    next
      assume "starts_with_separator ps"
      then obtain c cs rest where ps: "ps = Lit (c # cs) # rest" and c: "separator c"
        by (rule starts_with_separatorE)
      from r1(2) obtain u1 where u1: "m1 = (c # cs) @ u1"
        unfolding ps by (rule str_format_Lit)
      from r2(2) obtain u2 where u2: "m2 = (c # cs) @ u2"
        unfolding ps by (rule str_format_Lit)
      note ce = separator_not_e [OF c]
      have t1: "replace_e_plus (m1 @ ext) = c # replace_e_plus (cs @ u1 @ ext)"
        unfolding u1 using replace_Cons_not_e [OF ce] by simp
      have t2: "replace_e_plus (m2 @ ext) = c # replace_e_plus (cs @ u2 @ ext)"
        unfolding u2 using replace_Cons_not_e [OF ce] by simp
      have n1: "c \<notin> set (replace_e_plus r1)"
        using separator_not_rendered [OF rr1 c] set_replace [of r1] by blast
      have n2: "c \<notin> set (replace_e_plus r2)"
        using separator_not_rendered [OF rr2 c] set_replace [of r2] by blast
      from eq have "replace_e_plus r1 @ c # replace_e_plus (cs @ u1 @ ext)
          = replace_e_plus r2 @ c # replace_e_plus (cs @ u2 @ ext)"
        unfolding t1 t2 .
      from split_unique [OF n1 n2 this] show ?thesis
        unfolding t1 t2 by simp
    qed
    from both have same: "r1 = r2"
      using replace_rendered_inject [OF rr1 rr2] by blast
    show ?thesis
    proof (cases "k = k0")
      case True
      with r1(1) r2(1) same show ?thesis by simp
    next
      case False
      with Cons.prems(5) have "Field k \<in> set ps" unfolding Field by simp
      moreover from both have "replace_e_plus ([] @ m1 @ ext) = replace_e_plus ([] @ m2 @ ext)"
        by simp
      ultimately show ?thesis using ws r1(2) r2(2) by (intro Cons.IH [of m1 m2 "[]"])
    qed
  next
    case (Other f)
    with Cons.prems(1) show ?thesis by simp
  qed
qed

lemma generate_filename_template:
  "generate_filename cfg c =
     (case str_format (template cfg) (map (\<lambda>(key, value). (key, format_value value)) c) of
        Inl e \<Rightarrow> Inl e
      | Inr n \<Rightarrow> Inr (replace_e_plus (n @ suffix_of cfg)))"
  unfolding generate_filename_def template_def suffix_of_def Let_def by (rule refl)

lemma map_of_formatted:
  "map_of (map (\<lambda>(key, value). (key, format_value value)) c) k
     = map_option format_value (map_of c k)"
  by (induction c) auto

lemma generate_filename_Inr:
  assumes "generate_filename cfg c = Inr name"
  obtains n where
    "str_format (template cfg) (map (\<lambda>(key, value). (key, format_value value)) c) = Inr n"
    "name = replace_e_plus (n @ suffix_of cfg)"
  using assms unfolding generate_filename_template by (auto split: sum.splits)

lemma collision_renderings:
  assumes "well_separated (template cfg)"
    and "generate_filename cfg c1 = Inr name" and "generate_filename cfg c2 = Inr name"
    and "Field k \<in> set (template cfg)"
  shows "\<exists>v1 v2. map_of c1 k = Some v1 \<and> map_of c2 k = Some v2
           \<and> format_value v1 = format_value v2"
proof -
  let ?d1 = "map (\<lambda>(key, value). (key, format_value value)) c1"
  let ?d2 = "map (\<lambda>(key, value). (key, format_value value)) c2"
  from assms(2) obtain n1 where n1: "str_format (template cfg) ?d1 = Inr n1"
    "name = replace_e_plus (n1 @ suffix_of cfg)" by (rule generate_filename_Inr)
  from assms(3) obtain n2 where n2: "str_format (template cfg) ?d2 = Inr n2"
    "name = replace_e_plus (n2 @ suffix_of cfg)" by (rule generate_filename_Inr)
  have eq: "replace_e_plus ([] @ n1 @ suffix_of cfg) = replace_e_plus ([] @ n2 @ suffix_of cfg)"
    using n1(2) n2(2) by simp
  have r1: "\<forall>k v. map_of ?d1 k = Some v \<longrightarrow> rendered v"
    unfolding map_of_formatted by (auto simp: rendered_format_value)
  have r2: "\<forall>k v. map_of ?d2 k = Some v \<longrightarrow> rendered v"
    unfolding map_of_formatted by (auto simp: rendered_format_value)
  from names_agree [OF assms(1) n1(1) n2(1) eq r1 r2 assms(4)]
  obtain r where "map_of ?d1 k = Some r" "map_of ?d2 k = Some r" by blast
  then show ?thesis unfolding map_of_formatted by auto
qed

lemma well_separated_default: "well_separated default_format"
proof -
  have "separator CHR ''_''" by (simp add: separator_def)
  then show ?thesis by (simp add: default_format_def starts_with_separator_def)
qed

subsection \<open>Evaluation of the examples\<close>

lemma sci_parts_10_10: "sci_parts \<bar>10 ^ 10\<bar> = (1000, 10)"
  by (simp add: sci_eval)

lemma nearest_1e101: "nearest (10 ^ 101) = 6434446986835036 * 2 ^ 283"
  by (subst nearest_eval [where e = 335]) (simp_all add: pow2_def round_half_even_def)

lemma sci_parts_1e101: "sci_parts \<bar>6434446986835036 * 2 ^ 283\<bar> = (1000, 101)"
proof -
  have a: "\<bar>6434446986835036 * 2 ^ 283 :: real\<bar> = 6434446986835036 * 2 ^ 283" by simp
  have p: "pow10 100 = 10 ^ 100" by (simp add: pow10_def)
  have q: "pow10 (100 + 1) = 10 ^ 101" by (simp add: pow10_def)
  have de: "decimal_exponent (6434446986835036 * 2 ^ 283) = 100"
    by (rule decimal_exponent_unique) (simp_all only: p q, simp_all)
  show ?thesis
    unfolding a sci_parts_def de Let_def p by (simp add: round_half_even_def)
qed

lemma format_10_10: "format_value (10 ^ 10) = ''1.000e+10''"
proof -
  have "format_e3 (10 ^ 10) = ''1.000e+10''"
    by (subst format_e3_nonzero [OF _ sci_parts_10_10]) (simp_all add: sign_def digits_eval)
  then show ?thesis by (simp add: format_value_def)
qed

lemma format_1e101: "format_value (nearest (10 ^ 101)) = ''1.000e+101''"
proof -
  have "format_e3 (6434446986835036 * 2 ^ 283) = ''1.000e+101''"
    by (subst format_e3_nonzero [OF _ sci_parts_1e101]) (simp_all add: sign_def digits_eval)
  then show ?thesis unfolding nearest_1e101 by (simp add: format_value_def)
qed

lemma nearest_10001: "nearest (10001 / 10000) = 4504049987333233 / 2 ^ 52"
  by (subst nearest_eval [where e = 0]) (simp_all add: pow2_def round_half_even_def)

lemma format_10001: "format_value (nearest (10001 / 10000)) = ''1.000''"
  unfolding nearest_10001
  by (simp add: format_value_def format_f3_def round_half_even_def sign_def digits_eval)

lemma format_small:
  "format_value 12 = ''12.000''" "format_value 2 = ''2.000''" "format_value 1 = ''1.000''"
  "format_value 5 = ''5.000''" "format_value (3 / 2) = ''1.500''"
  by (simp_all add: format_value_def format_f3_def round_half_even_def sign_def digits_eval)

lemma formatted_collisions:
  "map (\<lambda>(key, value). (key, format_value value)) collision_a
     = [(''K_ch'', ''1.000e+10''), (''W_ch'', ''12.000'')]"
  "map (\<lambda>(key, value). (key, format_value value)) collision_b
     = [(''K_ch'', ''1.000e+101''), (''W_ch'', ''2.000'')]"
  "map (\<lambda>(key, value). (key, format_value value)) near_a
     = [(''K_ch'', ''1.000''), (''W_ch'', ''1.000''), (''W_rib'', ''5.000'')]"
  "map (\<lambda>(key, value). (key, format_value value)) near_b
     = [(''K_ch'', ''1.000''), (''W_ch'', ''1.000''), (''W_rib'', ''5.000'')]"
  unfolding collision_a_def collision_b_def near_a_def near_b_def
  by (simp_all only: list.map prod.case format_10_10 format_1e101 format_10001 format_small)

lemma adjacent_template:
  "template adjacent_config = [Field ''K_ch'', Field ''W_ch'']"
  "suffix_of adjacent_config = ''.mph''"
  by (simp_all add: template_def suffix_of_def adjacent_config_def)

lemma truncating_template:
  "template truncating_config = [Lit ''m_'', precision_field ''K_ch'' 1, Lit ''_x'']"
  "suffix_of truncating_config = ''.mph''"
  by (simp_all add: template_def suffix_of_def truncating_config_def)

lemma truncated_names:
  "generate_filename truncating_config [(''K_ch'', 1)] = Inr ''m_1_x.mph''"
  "generate_filename truncating_config [(''K_ch'', 3 / 2)] = Inr ''m_1_x.mph''"
  unfolding generate_filename_template truncating_template
  by (simp_all add: precision_field_def getitem_def format_small)

lemma default_template:
  "template unfiltered_config = default_format" "suffix_of unfiltered_config = ''.mph''"
  by (simp_all add: template_def suffix_of_def unfiltered_config_def empty_naming_def)

subsection \<open>Equal names and equal renderings\<close>

text \<open>
  C7 (amended). The name is a function of the format and of the combination: equal
  combinations get equal names. When the format is well separated (every replacement
  field is a name and nothing else, and ends the format or is followed by a literal
  starting with a character that occurs in no rendered value), two combinations of finite
  values with the same name have, for every placeholder of the format, identical
  renderings of the value. The default format is well separated, and it is the format
  used when the configuration has no \<open>file_naming\<close> entry.
\<close>

theorem collision_only_on_equal_renderings:
  "(c1 = c2 \<longrightarrow> generate_filename cfg c1 = generate_filename cfg c2)
   \<and> (well_separated (template cfg) \<and> generate_filename cfg c1 = Inr name
        \<and> generate_filename cfg c2 = Inr name \<and> Field k \<in> set (template cfg) \<longrightarrow>
        (\<exists>v1 v2. map_of c1 k = Some v1 \<and> map_of c2 k = Some v2
           \<and> format_value v1 = format_value v2))
   \<and> well_separated default_format
   \<and> (file_naming cfg = None \<longrightarrow> template cfg = default_format)"
proof -
  have "file_naming cfg = None \<longrightarrow> template cfg = default_format"
    by (simp add: template_def empty_naming_def)
  with collision_renderings [of cfg c1 name c2 k] well_separated_default
  show ?thesis by blast
qed

text \<open>
  Under the default format the combinations \<open>K_ch = 1\<close> and \<open>K_ch = 1.0001\<close> (with
  equal widths) get the same name, and the two values have the same rendering.
\<close>

theorem collision_only_on_equal_renderings_witness:
  "well_separated (template unfiltered_config)
   \<and> generate_filename unfiltered_config near_a
       = Inr ''batch_model_Kch_1.000_Wch_1.000_Wrib_5.000.mph''
   \<and> generate_filename unfiltered_config near_b
       = Inr ''batch_model_Kch_1.000_Wch_1.000_Wrib_5.000.mph''
   \<and> Field ''K_ch'' \<in> set (template unfiltered_config)
   \<and> near_a \<noteq> near_b
   \<and> format_value 1 = format_value (nearest (10001 / 10000))"
proof -
  have w: "well_separated (template unfiltered_config)"
    unfolding default_template by (rule well_separated_default)
  have a: "generate_filename unfiltered_config near_a
       = Inr ''batch_model_Kch_1.000_Wch_1.000_Wrib_5.000.mph''"
    unfolding generate_filename_template formatted_collisions default_template
    by (simp add: getitem_def default_format_def)
  have b: "generate_filename unfiltered_config near_b
       = Inr ''batch_model_Kch_1.000_Wch_1.000_Wrib_5.000.mph''"
    unfolding generate_filename_template formatted_collisions default_template
    by (simp add: getitem_def default_format_def)
  have f: "Field ''K_ch'' \<in> set (template unfiltered_config)"
    unfolding default_template by (simp add: default_format_def)
  have d: "near_a \<noteq> near_b" by (simp add: near_a_def near_b_def nearest_10001)
  from collision_only_on_equal_renderings
    [of near_a near_b unfiltered_config "''batch_model_Kch_1.000_Wch_1.000_Wrib_5.000.mph''"
      "''K_ch''"] w a b f
  obtain v1 v2 where "map_of near_a ''K_ch'' = Some v1" "map_of near_b ''K_ch'' = Some v2"
    "format_value v1 = format_value v2" by blast
  moreover have "map_of near_a ''K_ch'' = Some 1"
    "map_of near_b ''K_ch'' = Some (nearest (10001 / 10000))"
    unfolding near_a_def near_b_def by (simp_all only: map_of.simps fst_conv snd_conv fun_upd_same)
  ultimately have "format_value 1 = format_value (nearest (10001 / 10000))"
    by (metis option.inject)
  with w a b f d show ?thesis by blast
qed

text \<open>
  With the format \<open>{K_ch}{W_ch}\<close> the combinations read from \<open>(1e10, 12)\<close> and
  \<open>(1e101, 2)\<close> get the same name although the renderings of \<open>K_ch\<close> differ. With
  the format \<open>m_{K_ch:.1}_x\<close> the values 1.0 and 1.5 get the same name although their
  renderings differ.
\<close>

theorem adjacent_fields_counterexample:
  "generate_filename adjacent_config collision_a = Inr ''1.000e1012.000.mph''
   \<and> generate_filename adjacent_config collision_b = Inr ''1.000e1012.000.mph''
   \<and> map_of collision_a ''K_ch'' = Some (10 ^ 10)
   \<and> map_of collision_b ''K_ch'' = Some (nearest (10 ^ 101))
   \<and> format_value (10 ^ 10) = ''1.000e+10''
   \<and> format_value (nearest (10 ^ 101)) = ''1.000e+101''
   \<and> generate_filename truncating_config [(''K_ch'', 1)] = Inr ''m_1_x.mph''
   \<and> generate_filename truncating_config [(''K_ch'', 3 / 2)] = Inr ''m_1_x.mph''
   \<and> format_value 1 = ''1.000''
   \<and> format_value (3 / 2) = ''1.500''"
proof -
  have "generate_filename adjacent_config collision_a = Inr ''1.000e1012.000.mph''"
    unfolding generate_filename_template formatted_collisions adjacent_template
    by (simp add: getitem_def)
  moreover have "generate_filename adjacent_config collision_b = Inr ''1.000e1012.000.mph''"
    unfolding generate_filename_template formatted_collisions adjacent_template
    by (simp add: getitem_def)
  moreover have "map_of collision_a ''K_ch'' = Some (10 ^ 10)"
    "map_of collision_b ''K_ch'' = Some (nearest (10 ^ 101))"
    unfolding collision_a_def collision_b_def
    by (simp_all only: map_of.simps fst_conv snd_conv fun_upd_same)
  ultimately show ?thesis
    using format_10_10 format_1e101 truncated_names format_small(3,5) by blast
qed

end
